theory Spec2Isabelle
  imports Main "HOL-Library.Sublist"
begin

section \<open>JavaScript strings\<close>

text \<open>
  A JavaScript string is a sequence of UTF-16 code units. The model is \<^typ>\<open>string\<close>;
  a \<^typ>\<open>char\<close> stands for a code unit below 256 (the Latin-1 range), which covers every
  literal the program compares against. \<open>toLowerCase\<close> and \<open>trim\<close> are the
  built-ins restricted to that range.
\<close>

definition toLowerChar :: "char \<Rightarrow> char" where
  "toLowerChar c = (let n = (of_char c :: nat) in
     if (65 \<le> n \<and> n \<le> 90) \<or> (192 \<le> n \<and> n \<le> 214) \<or> (216 \<le> n \<and> n \<le> 222)
     then char_of (n + 32) else c)"

definition toLowerCase :: "string \<Rightarrow> string" where
  "toLowerCase s = map toLowerChar s"

text \<open>White space and line terminators below 256: TAB, LF, VT, FF, CR, SP, NBSP.\<close>

definition isWhiteSpace :: "char \<Rightarrow> bool" where
  "isWhiteSpace c = ((of_char c :: nat) \<in> {9, 10, 11, 12, 13, 32, 160})"

definition trim :: "string \<Rightarrow> string" where
  "trim s = rev (dropWhile isWhiteSpace (rev (dropWhile isWhiteSpace s)))"

text \<open>\<open>s.includes(sub)\<close>: \<open>sub\<close> occurs in \<open>s\<close> at some index.\<close>

fun str_includes :: "string \<Rightarrow> string \<Rightarrow> bool" where
  "str_includes [] sub = (sub = [])"
| "str_includes (c # cs) sub = (prefix sub (c # cs) \<or> str_includes cs sub)"

definition startsWith :: "string \<Rightarrow> string \<Rightarrow> bool" where
  "startsWith s p = prefix p s"

text \<open>
  \<open>s.split(sep)\<close> for a non-empty separator (the program splits on \<open>":"\<close> and
  \<open>" - "\<close> only): scan from the left, cut at every non-overlapping occurrence.
  \<open>cur\<close> is the piece being collected.
\<close>

fun split_from :: "string \<Rightarrow> string \<Rightarrow> string \<Rightarrow> string list" where
  "split_from sep cur [] = [cur]"
| "split_from sep cur (c # cs) =
     (if prefix sep (c # cs) then cur # split_from sep [] (drop (length sep - 1) cs)
      else split_from sep (cur @ [c]) cs)"

definition split :: "string \<Rightarrow> string \<Rightarrow> string list" where
  "split s sep = split_from sep [] s"

fun join :: "string list \<Rightarrow> string \<Rightarrow> string" where
  "join [] sep = []"
| "join [p] sep = p"
| "join (p # q # ps) sep = p @ sep @ join (q # ps) sep"

text \<open>Template-literal rendering of an integer-valued number (decimal, below \<open>10^21\<close>).\<close>

fun natToString :: "nat \<Rightarrow> string" where
  "natToString n =
     (if n < 10 then [''0123456789'' ! n]
      else natToString (n div 10) @ [''0123456789'' ! (n mod 10)])"

definition numToString :: "int \<Rightarrow> string" where
  "numToString i = (if i < 0 then CHR ''-'' # natToString (nat (- i)) else natToString (nat i))"

section \<open>Data model (schema.ts)\<close>

text \<open>
  The types that the zod schemas infer. Fields keep their names, except where the name is
  taken: \<open>dates_start\<close> and \<open>dates_end\<close> are \<open>dates.start\<close> and \<open>dates.end\<close>,
  \<open>cnotes\<close> is a candidate's \<open>notes\<close>, \<open>dayNotes\<close> a day's \<open>notes\<close>. An optional field
  is an \<open>option\<close>; a field with a default is always present.
\<close>

datatype BudgetLevel = low | mid | high

datatype Pace = relaxed | balanced | packed

datatype Category = restaurant | attraction | indoor_backup

record Dates =
  dates_start :: "string option"
  dates_end :: "string option"

record TripRequest =
  destination :: string
  tripLengthDays :: int
  dates :: Dates
  travelers :: int
  budgetLevel :: BudgetLevel
  pace :: Pace
  interests :: "string list"
  constraints :: "string list"
  missingInfoQuestions :: "string list"

record Candidate =
  name :: string
  category :: Category
  url :: string
  cnotes :: "string option"

record DayBlock =
  time :: string
  title :: string
  details :: "string option"

record DayPlan =
  day :: int
  theme :: string
  blocks :: "DayBlock list"
  meals :: "string list"
  dayNotes :: "string list"

record Itinerary =
  summary :: string
  days :: "DayPlan list"
  mustBook :: "string list"
  rainBackups :: "string list"
  estimatedDailyCostRange :: "string option"

record ValidationResult =
  ok :: bool
  violations :: "string list"

record AllowedLists =
  allowedAttractions :: "string list"
  allowedRestaurants :: "string list"
  allowedIndoorBackups :: "string list"

section \<open>Allowed-list projector (index.ts, planFromIntake.ts)\<close>

text \<open>
  \<open>[...new Set(xs)]\<close>: a JavaScript Set iterates in insertion order, and inserting a
  value already present changes nothing.
\<close>

definition Set_spread :: "'a list \<Rightarrow> 'a list" where
  "Set_spread xs = fold (\<lambda>x acc. if x \<in> set acc then acc else acc @ [x]) xs []"

definition unique :: "string list \<Rightarrow> string list" where
  "unique arr = Set_spread (filter (\<lambda>s. s \<noteq> []) (map (\<lambda>s. trim s) arr))"

definition cap :: "'a list \<Rightarrow> nat \<Rightarrow> 'a list" where
  "cap arr n = (if length arr > n then take n arr else arr)"

text \<open>The interactive path (index.ts): caps 25, 25, 15.\<close>

definition allowedListsFromCandidates :: "Candidate list \<Rightarrow> AllowedLists" where
  "allowedListsFromCandidates candidates =
     (let allowedAttractions = unique (map name (filter (\<lambda>c. category c = attraction) candidates));
          allowedRestaurants = unique (map name (filter (\<lambda>c. category c = restaurant) candidates));
          allowedIndoorBackups = unique (map name (filter (\<lambda>c. category c = indoor_backup) candidates))
      in \<lparr> allowedAttractions = cap allowedAttractions 25,
           allowedRestaurants = cap allowedRestaurants 25,
           allowedIndoorBackups = cap allowedIndoorBackups 15 \<rparr>)"

text \<open>The batch path (planFromIntake.ts): the same projection with caps 60, 40, 30.\<close>

definition allowedListsFromCandidates_batch :: "Candidate list \<Rightarrow> AllowedLists" where
  "allowedListsFromCandidates_batch candidates =
     (let allowedAttractions = unique (map name (filter (\<lambda>c. category c = attraction) candidates));
          allowedRestaurants = unique (map name (filter (\<lambda>c. category c = restaurant) candidates));
          allowedIndoorBackups = unique (map name (filter (\<lambda>c. category c = indoor_backup) candidates))
      in \<lparr> allowedAttractions = cap allowedAttractions 60,
           allowedRestaurants = cap allowedRestaurants 40,
           allowedIndoorBackups = cap allowedIndoorBackups 30 \<rparr>)"

subsection \<open>Candidate deduplication (tools/buildCandidates.ts)\<close>

fun dedupe_loop :: "Candidate list \<Rightarrow> string set \<Rightarrow> Candidate list \<Rightarrow> Candidate list" where
  "dedupe_loop [] seen out = out"
| "dedupe_loop (c # cands) seen out =
     (let key = toLowerCase (trim (name c)) in
      if key = [] then dedupe_loop cands seen out
      else if key \<in> seen then dedupe_loop cands seen out
      else dedupe_loop cands (insert key seen) (out @ [c]))"

definition dedupe :: "Candidate list \<Rightarrow> Candidate list" where
  "dedupe cands = dedupe_loop cands {} []"

text \<open>The identity of a candidate in \<open>dedupe\<close>: its lowercase-trimmed name.\<close>

definition dedupe_key :: "Candidate \<Rightarrow> string" where
  "dedupe_key c = toLowerCase (trim (name c))"

text \<open>The specification's reading of "first-seen order": the first occurrence of each
  element, in the order of the input.\<close>

definition first_seen :: "'a list \<Rightarrow> 'a list" where
  "first_seen xs = rev (remdups (rev xs))"

definition trimmed_names :: "Category \<Rightarrow> Candidate list \<Rightarrow> string list" where
  "trimmed_names k candidates =
     filter (\<lambda>s. s \<noteq> []) (map (\<lambda>c. trim (name c)) (filter (\<lambda>c. category c = k) candidates))"

text \<open>What the specification asks of one allowed list \<open>out\<close> of category \<open>k\<close> with cap
  \<open>n\<close>: unique names, each the (trimmed) name of a candidate of that category, the first
  occurrences in candidate order, cut at the cap.\<close>

definition projects :: "Candidate list \<Rightarrow> Category \<Rightarrow> nat \<Rightarrow> string list \<Rightarrow> bool" where
  "projects candidates k n out \<longleftrightarrow>
     distinct out \<and>
     (\<forall>x\<in>set out. \<exists>c\<in>set candidates. category c = k \<and> trim (name c) = x) \<and>
     out = take n (first_seen (trimmed_names k candidates)) \<and>
     subseq out (map (\<lambda>c. trim (name c)) (filter (\<lambda>c. category c = k) candidates)) \<and>
     length out \<le> n"

definition cafes :: "Candidate list" where
  "cafes =
     [\<lparr>name = ''Cafe A'', category = restaurant, url = ''https://a.example'', cnotes = None\<rparr>,
      \<lparr>name = ''cafe a '', category = restaurant, url = ''https://a.example'', cnotes = None\<rparr>,
      \<lparr>name = ''Cafe B'', category = restaurant, url = ''https://b.example'', cnotes = None\<rparr>]"

section \<open>Itinerary validator (validate.ts)\<close>

definition isTimeRange :: "string \<Rightarrow> bool" where
  "isTimeRange s = str_includes s '' - ''"

text \<open>\<open>split\<close> never returns an empty array, so \<open>[0]\<close> is \<open>hd\<close>.\<close>

definition extractRestaurantNameFromMeal :: "string \<Rightarrow> string option" where
  "extractRestaurantNameFromMeal meal =
     (let parts = split meal '':'' in
      if length parts < 2 then None
      else
        (let afterColon = trim (join (drop 1 parts) '':'');
             rest = trim (hd (split afterColon '' - ''))
         in if rest = [] then None else Some rest))"

definition push :: "'a list \<Rightarrow> 'a \<Rightarrow> 'a list" where
  "push xs x = xs @ [x]"

definition quoted :: "string \<Rightarrow> string" where
  "quoted s = [CHR 0x22] @ s @ [CHR 0x22]"

fun paceName :: "Pace \<Rightarrow> string" where
  "paceName relaxed = ''relaxed''"
| "paceName balanced = ''balanced''"
| "paceName packed = ''packed''"

text \<open>Day count (lines 33-35).\<close>

definition checkDayCount :: "TripRequest \<Rightarrow> Itinerary \<Rightarrow> string list \<Rightarrow> string list" where
  "checkDayCount trip itinerary vs =
     (if int (length (days itinerary)) \<noteq> tripLengthDays trip
      then push vs
        (''days.length='' @ numToString (int (length (days itinerary))) @
         '' must equal tripLengthDays='' @ numToString (tripLengthDays trip))
      else vs)"

text \<open>Day numbering (lines 36-39). \<open>dayNums[i-1]\<close> beyond the array is \<open>undefined\<close>,
  which is never \<open>=== i\<close>.\<close>

definition checkDayNumbers :: "TripRequest \<Rightarrow> Itinerary \<Rightarrow> string list \<Rightarrow> string list" where
  "checkDayNumbers trip itinerary vs =
     (let dayNums = sort (map day (days itinerary)) in
      fold (\<lambda>i v.
          if (if nat (i - 1) < length dayNums then dayNums ! nat (i - 1) \<noteq> i else True)
          then push v (''Missing or wrong day number: expected day '' @ numToString i)
          else v)
        [1..tripLengthDays trip] vs)"

text \<open>Pace rule, the body of the loop at lines 42-51.\<close>

definition paceStep :: "TripRequest \<Rightarrow> DayPlan \<Rightarrow> string list \<Rightarrow> string list" where
  "paceStep trip d vs =
     (let nblocks = length (blocks d);
          p = pace trip;
          ok = (p = relaxed \<and> nblocks \<ge> 2 \<and> nblocks \<le> 3) \<or>
               (p = balanced \<and> nblocks \<ge> 3 \<and> nblocks \<le> 4) \<or>
               (p = packed \<and> nblocks \<ge> 4 \<and> nblocks \<le> 6)
      in if \<not> ok
         then push vs
           (''Day '' @ numToString (day d) @ '' blocks='' @ numToString (int nblocks) @
            '' violates pace='' @ paceName p)
         else vs)"

definition checkPace :: "TripRequest \<Rightarrow> Itinerary \<Rightarrow> string list \<Rightarrow> string list" where
  "checkPace trip itinerary vs = fold (paceStep trip) (days itinerary) vs"

text \<open>Notes (lines 54-56).\<close>

definition notesStep :: "DayPlan \<Rightarrow> string list \<Rightarrow> string list" where
  "notesStep d vs =
     (if length (dayNotes d) < 2
      then push vs (''Day '' @ numToString (day d) @ '' notes must have at least 2 items'')
      else vs)"

definition checkNotes :: "Itinerary \<Rightarrow> string list \<Rightarrow> string list" where
  "checkNotes itinerary vs = fold notesStep (days itinerary) vs"

text \<open>Blocks (lines 59-69): three independent checks per block.\<close>

definition blockStep :: "string list \<Rightarrow> DayPlan \<Rightarrow> DayBlock \<Rightarrow> string list \<Rightarrow> string list" where
  "blockStep attractions d b vs =
     (let v1 = (if \<not> isTimeRange (time b)
                then push vs
                  (''Day '' @ numToString (day d) @ '' block time not a range: '' @ quoted (time b))
                else vs);
          v2 = (if title b \<notin> set attractions
                then push v1 (''Invalid attraction in blocks: '' @ quoted (title b))
                else v1)
      in if str_includes (toLowerCase (title b)) ''lunch'' \<or>
            str_includes (toLowerCase (title b)) ''dinner''
         then push v2 (''Block title includes dining text (Option B): '' @ quoted (title b))
         else v2)"

definition checkBlocks :: "string list \<Rightarrow> Itinerary \<Rightarrow> string list \<Rightarrow> string list" where
  "checkBlocks attractions itinerary vs =
     fold (\<lambda>d v. fold (blockStep attractions d) (blocks d) v) (days itinerary) vs"

text \<open>Meals (lines 72-92).\<close>

definition vegHints :: "string list" where
  "vegHints = [''veg'', ''vegetarian'', ''vegan'', ''plant'', ''tofu'', ''paneer'', ''lentil'',
     ''chickpea'', ''vegetable'']"

definition mealStep :: "TripRequest \<Rightarrow> string list \<Rightarrow> string \<Rightarrow> string list \<Rightarrow> string list" where
  "mealStep trip restaurants meal vs =
     (let v1 = (case extractRestaurantNameFromMeal meal of
                  None \<Rightarrow> push vs (''Meal format invalid: '' @ quoted meal)
                | Some rest \<Rightarrow>
                    if rest \<notin> set restaurants
                    then push vs (''Invalid restaurant in meals: '' @ quoted rest)
                    else vs)
      in if ''vegetarian'' \<in> set (constraints trip)
         then (let lower = toLowerCase meal in
               if \<not> list_ex (\<lambda>h. str_includes lower h) vegHints
               then push v1 (''Meal may not clearly indicate vegetarian dish: '' @ quoted meal)
               else v1)
         else v1)"

definition mealsStep :: "TripRequest \<Rightarrow> string list \<Rightarrow> DayPlan \<Rightarrow> string list \<Rightarrow> string list" where
  "mealsStep trip restaurants d vs =
     (let hasLunch = list_ex (\<lambda>m. startsWith m ''Lunch:'') (meals d);
          hasDinner = list_ex (\<lambda>m. startsWith m ''Dinner:'') (meals d);
          v1 = (if \<not> hasLunch
                then push vs (''Day '' @ numToString (day d) @ '' missing Lunch: in meals'')
                else vs);
          v2 = (if \<not> hasDinner
                then push v1 (''Day '' @ numToString (day d) @ '' missing Dinner: in meals'')
                else v1)
      in fold (mealStep trip restaurants) (meals d) v2)"

definition checkMeals :: "TripRequest \<Rightarrow> string list \<Rightarrow> Itinerary \<Rightarrow> string list \<Rightarrow> string list" where
  "checkMeals trip restaurants itinerary vs =
     fold (mealsStep trip restaurants) (days itinerary) vs"

text \<open>Rain backups (lines 95-98).\<close>

definition rainStep :: "string list \<Rightarrow> string \<Rightarrow> string list \<Rightarrow> string list" where
  "rainStep indoorBackups rb vs =
     (if rb \<notin> set indoorBackups
      then push vs (''Invalid rain backup (not in allowedIndoorBackups): '' @ quoted rb)
      else vs)"

definition checkRainBackups :: "string list \<Rightarrow> Itinerary \<Rightarrow> string list \<Rightarrow> string list" where
  "checkRainBackups indoorBackups itinerary vs =
     fold (rainStep indoorBackups) (rainBackups itinerary) vs"

text \<open>The validator; \<open>attractions\<close>, \<open>restaurants\<close> and \<open>indoorBackups\<close> are its
  parameters \<open>allowedAttractions\<close>, \<open>allowedRestaurants\<close> and \<open>allowedIndoorBackups\<close>,
  \<open>vs\<close> in the rules above is the array \<open>violations\<close>.\<close>

text \<open>The validator: one \<open>violations\<close> array, pushed to by each rule in turn
  (\<open>v0\<close> ... \<open>v7\<close> are its successive contents).\<close>

definition validateItineraryProduction ::
  "TripRequest \<Rightarrow> Itinerary \<Rightarrow> string list \<Rightarrow> string list \<Rightarrow> string list \<Rightarrow> ValidationResult" where
  "validateItineraryProduction trip itinerary attractions restaurants indoorBackups =
     (let v0 = [];
          v1 = checkDayCount trip itinerary v0;
          v2 = checkDayNumbers trip itinerary v1;
          v3 = checkPace trip itinerary v2;
          v4 = checkNotes itinerary v3;
          v5 = checkBlocks attractions itinerary v4;
          v6 = checkMeals trip restaurants itinerary v5;
          v7 = checkRainBackups indoorBackups itinerary v6
      in \<lparr> ok = (length v7 = 0), violations = v7 \<rparr>)"

subsection \<open>The rules as the specification states them\<close>

text \<open>Pace ranges: relaxed [2,3], balanced [3,4], packed [4,6].\<close>

fun paceRange :: "Pace \<Rightarrow> nat \<times> nat" where
  "paceRange relaxed = (2, 3)"
| "paceRange balanced = (3, 4)"
| "paceRange packed = (4, 6)"

definition inPaceRange :: "Pace \<Rightarrow> nat \<Rightarrow> bool" where
  "inPaceRange p n = (fst (paceRange p) \<le> n \<and> n \<le> snd (paceRange p))"

text \<open>The pace violation of a day: it states the day, the actual block count and the pace.\<close>

definition paceMessage :: "TripRequest \<Rightarrow> DayPlan \<Rightarrow> string" where
  "paceMessage trip d =
     ''Day '' @ numToString (day d) @ '' blocks='' @ numToString (int (length (blocks d))) @
     '' violates pace='' @ paceName (pace trip)"

text \<open>Recognises a pace violation among the validator's messages: \<open>Day\<close>, a number,
  then \<open>blocks=\<close>.\<close>

definition isPaceMessage :: "string \<Rightarrow> bool" where
  "isPaceMessage m =
     (prefix ''Day '' m \<and> prefix '' blocks='' (dropWhile (\<lambda>c. c \<noteq> CHR '' '') (drop 4 m)))"

definition attractionMessage :: "DayBlock \<Rightarrow> string" where
  "attractionMessage b = ''Invalid attraction in blocks: '' @ quoted (title b)"

definition isAttractionMessage :: "string \<Rightarrow> bool" where
  "isAttractionMessage m = prefix ''Invalid attraction in blocks: '' m"

text \<open>A message of any rule other than the pace rule and the attraction rule.\<close>

definition otherMessage :: "string \<Rightarrow> bool" where
  "otherMessage m \<longleftrightarrow> \<not> isPaceMessage m \<and> \<not> isAttractionMessage m"

text \<open>All blocks of an itinerary, in day order.\<close>

definition allBlocks :: "Itinerary \<Rightarrow> DayBlock list" where
  "allBlocks itinerary = concat (map blocks (days itinerary))"

text \<open>
  Meal parsing as the specification describes it: the remainder after the first colon
  (trimmed), and of it the text before the first \<open>" - "\<close> (trimmed). A meal without a
  colon has no remainder, hence an empty restaurant portion.
\<close>

fun before_sep :: "string \<Rightarrow> string \<Rightarrow> string" where
  "before_sep sep [] = []"
| "before_sep sep (c # cs) = (if prefix sep (c # cs) then [] else c # before_sep sep cs)"

definition after_first_colon :: "string \<Rightarrow> string" where
  "after_first_colon meal = drop 1 (dropWhile (\<lambda>c. c \<noteq> CHR '':'') meal)"

definition mealRestaurant :: "string \<Rightarrow> string" where
  "mealRestaurant meal = trim (before_sep '' - '' (trim (after_first_colon meal)))"

text \<open>The meal text contains, case-insensitively, one of the dietary-signal substrings.\<close>

definition hasVegHint :: "string \<Rightarrow> bool" where
  "hasVegHint meal = (\<exists>h\<in>set vegHints. sublist h (toLowerCase meal))"

text \<open>The messages a day gets when it has no \<open>Lunch:\<close> or no \<open>Dinner:\<close> entry.\<close>

definition missingMealMessages :: "DayPlan \<Rightarrow> string list" where
  "missingMealMessages d =
     (if \<not> list_ex (\<lambda>m. startsWith m ''Lunch:'') (meals d)
      then [''Day '' @ numToString (day d) @ '' missing Lunch: in meals''] else []) @
     (if \<not> list_ex (\<lambda>m. startsWith m ''Dinner:'') (meals d)
      then [''Day '' @ numToString (day d) @ '' missing Dinner: in meals''] else [])"

subsection \<open>A concrete trip and itinerary\<close>

definition ex_trip :: TripRequest where
  "ex_trip = \<lparr> destination = ''Chicago'', tripLengthDays = 1,
     dates = \<lparr> dates_start = None, dates_end = None \<rparr>, travelers = 2, budgetLevel = mid,
     pace = relaxed, interests = [], constraints = [''vegetarian''],
     missingInfoQuestions = [] \<rparr>"

definition ex_block :: "string \<Rightarrow> DayBlock" where
  "ex_block t = \<lparr> time = ''09:00 AM - 11:30 AM'', title = t, details = None \<rparr>"

definition ex_day :: DayPlan where
  "ex_day = \<lparr> day = 1, theme = ''Art'', blocks = [ex_block ''Art Institute''],
     meals = [''Lunch: Green Table - Tofu Banh Mi (Vegetarian)'', ''Dinner: Green Table - Pasta''],
     dayNotes = [''Book ahead'', ''Bring a jacket''] \<rparr>"

definition ex_itinerary :: Itinerary where
  "ex_itinerary = \<lparr> summary = ''One day of art'', days = [ex_day], mustBook = [],
     rainBackups = [], estimatedDailyCostRange = None \<rparr>"

section \<open>Balanced JSON extraction (llm.ts)\<close>

datatype js_error = Error string | SyntaxError | ZodError

text \<open>\<open>raw.indexOf(ch)\<close>: the first index of \<open>ch\<close>, or \<open>-1\<close>.\<close>

definition indexOf :: "string \<Rightarrow> char \<Rightarrow> int" where
  "indexOf raw ch = (if ch \<in> set raw then int (length (takeWhile (\<lambda>c. c \<noteq> ch) raw)) else - 1)"

text \<open>\<open>raw.slice(a, b)\<close> for \<open>0 \<le> a\<close> and \<open>0 \<le> b\<close> (the only way the program calls it).\<close>

definition slice :: "string \<Rightarrow> int \<Rightarrow> int \<Rightarrow> string" where
  "slice raw a b = take (nat (b - a)) (drop (nat a) raw)"

text \<open>
  The \<open>for\<close> loop of \<open>extractFirstJsonSlice\<close>, from index \<open>i\<close> with the loop variables
  \<open>depth\<close>, \<open>inString\<close>, \<open>escaped\<close>. The loop starts at \<open>start \<ge> 0\<close>, so \<open>raw[i]\<close> is
  \<open>raw ! nat i\<close>. \<open>CHR 0x5C\<close> is the backslash, \<open>CHR 0x22\<close> the double quote.
\<close>

function scanJson ::
  "string \<Rightarrow> char \<Rightarrow> char \<Rightarrow> int \<Rightarrow> int \<Rightarrow> int \<Rightarrow> bool \<Rightarrow> bool \<Rightarrow> js_error + string" where
  "scanJson raw opn cls start i depth inString escaped =
     (if i < int (length raw) then
        (let ch = raw ! nat i in
         if inString then
           (if escaped then scanJson raw opn cls start (i + 1) depth inString False
            else if ch = CHR 0x5C then scanJson raw opn cls start (i + 1) depth inString True
            else if ch = CHR 0x22 then scanJson raw opn cls start (i + 1) depth False escaped
            else scanJson raw opn cls start (i + 1) depth inString escaped)
         else if ch = CHR 0x22 then scanJson raw opn cls start (i + 1) depth True escaped
         else
           (let depth1 = (if ch = opn then depth + 1 else depth);
                depth2 = (if ch = cls then depth1 - 1 else depth1)
            in if depth2 = 0 then Inr (slice raw start (i + 1))
               else scanJson raw opn cls start (i + 1) depth2 inString escaped))
      else Inl (Error ''Unterminated JSON''))"
  by pat_completeness auto
termination
  by (relation "measure (\<lambda>(raw, opn, cls, start, i, depth, inString, escaped). nat (int (length raw) - i))")
     auto

declare scanJson.simps [simp del]

definition extractFirstJsonSlice :: "string \<Rightarrow> char \<Rightarrow> char \<Rightarrow> js_error + string" where
  "extractFirstJsonSlice raw opn cls =
     (let start = indexOf raw opn in
      if start = - 1 then Inl (Error ''No JSON found'')
      else scanJson raw opn cls start start 0 False False)"

subsection \<open>The balanced object as the specification describes it\<close>

text \<open>String-aware reading: where a position lies with respect to double-quoted string
  literals, a backslash inside a literal escaping the next character.\<close>

datatype lex = Outside | Inside | Escaped

fun lex_step :: "lex \<Rightarrow> char \<Rightarrow> lex" where
  "lex_step Outside ch = (if ch = CHR 0x22 then Inside else Outside)"
| "lex_step Inside ch = (if ch = CHR 0x5C then Escaped else if ch = CHR 0x22 then Outside else Inside)"
| "lex_step Escaped ch = Inside"

definition lex_state :: "string \<Rightarrow> lex" where
  "lex_state pre = foldl lex_step Outside pre"

text \<open>Position \<open>k\<close> of \<open>s\<close> lies outside every string literal.\<close>

definition outside :: "string \<Rightarrow> nat \<Rightarrow> bool" where
  "outside s k \<longleftrightarrow> lex_state (take k s) = Outside"

text \<open>The brace depth after the first \<open>k\<close> characters: opening minus closing braces that
  lie outside string literals.\<close>

definition brace_depth :: "string \<Rightarrow> nat \<Rightarrow> int" where
  "brace_depth s k =
     int (length (filter (\<lambda>j. outside s j \<and> s ! j = CHR ''{'') [0..<k])) -
     int (length (filter (\<lambda>j. outside s j \<and> s ! j = CHR ''}'') [0..<k]))"

text \<open>The length of the shortest non-empty prefix at whose end the depth is back to zero.\<close>

definition balanced_end :: "string \<Rightarrow> nat option" where
  "balanced_end s = List.find (\<lambda>k. brace_depth s k = 0) [1..<Suc (length s)]"

definition first_json_object :: "string \<Rightarrow> js_error + string" where
  "first_json_object raw =
     (if CHR ''{'' \<notin> set raw then Inl (Error ''No JSON found'')
      else
        (let s = dropWhile (\<lambda>c. c \<noteq> CHR ''{'') raw in
         case balanced_end s of
           None \<Rightarrow> Inl (Error ''Unterminated JSON'')
         | Some k \<Rightarrow> Inr (take k s)))"

text \<open>The search of \<open>balanced_end\<close> resumed after position \<open>k\<close>, and the reading of the loop
  variables \<open>inString\<close>, \<open>escaped\<close> as a position with respect to string literals.\<close>

definition search_from :: "string \<Rightarrow> nat \<Rightarrow> js_error + string" where
  "search_from s k =
     (case find (\<lambda>j. brace_depth s j = 0) [Suc k..<Suc (length s)] of
        None \<Rightarrow> Inl (Error ''Unterminated JSON'')
      | Some j \<Rightarrow> Inr (take j s))"

definition code_lex :: "bool \<Rightarrow> bool \<Rightarrow> lex" where
  "code_lex inS esc = (if inS then (if esc then Escaped else Inside) else Outside)"

definition ex_raw :: string where
  "ex_raw = ''Sure: {'' @ quoted ''a}b'' @ '':{}} done''"

section \<open>Parsed JSON and the schemas (schema.ts)\<close>

text \<open>
  A value returned by \<open>JSON.parse\<close>. \<open>JNumber\<close> is an integer-valued number, \<open>JNonInteger\<close>
  any other number (the schemas only ask whether a number is an integer and compare integers).
  An object is its list of key/value pairs; \<open>obj.k\<close> is \<open>map_of\<close>, \<open>undefined\<close> being
  \<open>None\<close>.
\<close>

datatype json =
    JNull
  | JBool bool
  | JNumber int
  | JNonInteger
  | JString string
  | JArray "json list"
  | JObject "(string \<times> json) list"

text \<open>\<open>obj && typeof obj === "object" && typeof obj.summary === "string" &&
  Array.isArray(obj.days)\<close>; an array is an object without these properties.\<close>

fun looksLikeItinerary :: "json \<Rightarrow> bool" where
  "looksLikeItinerary (JObject fs) =
     ((case map_of fs ''summary'' of Some (JString s) \<Rightarrow> True | _ \<Rightarrow> False) \<and>
      (case map_of fs ''days'' of Some (JArray ds) \<Rightarrow> True | _ \<Rightarrow> False))"
| "looksLikeItinerary _ = False"

text \<open>The zod combinators the itinerary schema uses; \<open>None\<close> is a failed parse.\<close>

definition z_string_min1 :: "json option \<Rightarrow> string option" where
  "z_string_min1 v = (case v of Some (JString s) \<Rightarrow> if length s \<ge> 1 then Some s else None | _ \<Rightarrow> None)"

definition z_string_optional :: "json option \<Rightarrow> string option option" where
  "z_string_optional v = (case v of None \<Rightarrow> Some None | Some (JString s) \<Rightarrow> Some (Some s) | _ \<Rightarrow> None)"

definition z_string_array :: "json option \<Rightarrow> string list option" where
  "z_string_array v =
     (case v of
        Some (JArray xs) \<Rightarrow> those (map (\<lambda>x. case x of JString s \<Rightarrow> Some s | _ \<Rightarrow> None) xs)
      | _ \<Rightarrow> None)"

definition z_string_array_default :: "json option \<Rightarrow> string list option" where
  "z_string_array_default v = (case v of None \<Rightarrow> Some [] | _ \<Rightarrow> z_string_array v)"

definition z_min :: "nat \<Rightarrow> 'a list option \<Rightarrow> 'a list option" where
  "z_min n v = (case v of Some xs \<Rightarrow> if length xs \<ge> n then Some xs else None | None \<Rightarrow> None)"

definition z_int_min1 :: "json option \<Rightarrow> int option" where
  "z_int_min1 v = (case v of Some (JNumber n) \<Rightarrow> if n \<ge> 1 then Some n else None | _ \<Rightarrow> None)"

definition DayBlockSchema_parse :: "json \<Rightarrow> DayBlock option" where
  "DayBlockSchema_parse j =
     (case j of
        JObject fs \<Rightarrow>
          (case (z_string_min1 (map_of fs ''time''), z_string_min1 (map_of fs ''title''),
                 z_string_optional (map_of fs ''details'')) of
             (Some t, Some ti, Some d) \<Rightarrow> Some \<lparr> time = t, title = ti, details = d \<rparr>
           | _ \<Rightarrow> None)
      | _ \<Rightarrow> None)"

definition z_block_array :: "json option \<Rightarrow> DayBlock list option" where
  "z_block_array v = (case v of Some (JArray xs) \<Rightarrow> those (map DayBlockSchema_parse xs) | _ \<Rightarrow> None)"

definition DayPlanSchema_parse :: "json \<Rightarrow> DayPlan option" where
  "DayPlanSchema_parse j =
     (case j of
        JObject fs \<Rightarrow>
          (case (z_int_min1 (map_of fs ''day''), z_string_min1 (map_of fs ''theme''),
                 z_min 2 (z_block_array (map_of fs ''blocks'')),
                 z_min 2 (z_string_array (map_of fs ''meals'')),
                 z_string_array_default (map_of fs ''notes'')) of
             (Some n, Some th, Some bs, Some ms, Some ns) \<Rightarrow>
               Some \<lparr> day = n, theme = th, blocks = bs, meals = ms, dayNotes = ns \<rparr>
           | _ \<Rightarrow> None)
      | _ \<Rightarrow> None)"

definition z_day_array :: "json option \<Rightarrow> DayPlan list option" where
  "z_day_array v = (case v of Some (JArray xs) \<Rightarrow> those (map DayPlanSchema_parse xs) | _ \<Rightarrow> None)"

text \<open>\<open>ItinerarySchema.parse\<close>: the typed itinerary, or a thrown \<open>ZodError\<close>.\<close>

definition ItinerarySchema_parse :: "json \<Rightarrow> js_error + Itinerary" where
  "ItinerarySchema_parse j =
     (case j of
        JObject fs \<Rightarrow>
          (case (z_string_min1 (map_of fs ''summary''), z_min 1 (z_day_array (map_of fs ''days'')),
                 z_string_array_default (map_of fs ''mustBook''),
                 z_string_array_default (map_of fs ''rainBackups''),
                 z_string_optional (map_of fs ''estimatedDailyCostRange'')) of
             (Some s, Some ds, Some mb, Some rb, Some c) \<Rightarrow>
               Inr \<lparr> summary = s, days = ds, mustBook = mb, rainBackups = rb,
                     estimatedDailyCostRange = c \<rparr>
           | _ \<Rightarrow> Inl ZodError)
      | _ \<Rightarrow> Inl ZodError)"

text \<open>
  The object handed to \<open>TripRequestSchema.parse\<close> by \<open>planFromIntake\<close>. Its fields come
  from the typed intake, except \<open>tripLengthDays\<close>, a computed number that is \<open>NaN\<close>
  (\<open>None\<close>) when a date does not parse.
\<close>

record TripObj =
  o_destination :: string
  o_tripLengthDays :: "int option"
  o_dates :: Dates
  o_travelers :: int
  o_budgetLevel :: BudgetLevel
  o_pace :: Pace
  o_interests :: "string list"
  o_constraints :: "string list"
  o_missingInfoQuestions :: "string list"

definition TripRequestSchema_parse :: "TripObj \<Rightarrow> js_error + TripRequest" where
  "TripRequestSchema_parse obj =
     (case o_tripLengthDays obj of
        None \<Rightarrow> Inl ZodError
      | Some n \<Rightarrow>
          if length (o_destination obj) \<ge> 1 \<and> n \<ge> 1 \<and> n \<le> 30 \<and>
             o_travelers obj \<ge> 1 \<and> o_travelers obj \<le> 20
          then Inr \<lparr> destination = o_destination obj, tripLengthDays = n, dates = o_dates obj,
                     travelers = o_travelers obj, budgetLevel = o_budgetLevel obj,
                     pace = o_pace obj, interests = o_interests obj,
                     constraints = o_constraints obj,
                     missingInfoQuestions = o_missingInfoQuestions obj \<rparr>
          else Inl ZodError)"

section \<open>Collaborators and the generate-validate-repair loop\<close>

text \<open>The prompts sent to the chat-completion service: by \<open>fixJsonOnly\<close> (object mode), by
  \<open>generateItineraryOptionB\<close> and by \<open>reviseItineraryJson\<close>, each with its arguments.\<close>

record ReviseArgs =
  r_trip :: TripRequest
  r_itinerary :: Itinerary
  r_fixes :: "string list"
  r_allowed :: AllowedLists
  r_violations :: "string list option"

datatype chat_request =
    FixJson string
  | Generate TripRequest AllowedLists
  | Revise ReviseArgs

text \<open>
  The outside of the program. \<open>chat\<close> is the completion service: from its own state it
  answers a request with the message content or rejects (the \<open>await\<close> throws), and moves to
  a new state, so it may answer the same request differently each time.
  \<open>buildCandidatesForCity\<close> (search plus extraction) is taken the same way.
  \<open>JSON_parse\<close> is \<open>JSON.parse\<close> (\<open>None\<close> for a \<open>SyntaxError\<close>), \<open>Date_getTime\<close> is
  \<open>new Date(s).getTime()\<close> in milliseconds (\<open>None\<close> for an invalid date, \<open>NaN\<close>).
\<close>

record 's env =
  chat :: "chat_request \<Rightarrow> 's \<Rightarrow> (js_error + string) \<times> 's"
  buildCandidatesForCity :: "string \<Rightarrow> 's \<Rightarrow> (js_error + Candidate list) \<times> 's"
  JSON_parse :: "string \<Rightarrow> json option"
  Date_getTime :: "string \<Rightarrow> int option"

text \<open>The state threaded through a request: the collaborators' state and the requests sent
  to the completion service so far.\<close>

record 's world =
  collab :: 's
  sent :: "chat_request list"

definition chat_completion :: "'s env \<Rightarrow> chat_request \<Rightarrow> 's world \<Rightarrow> (js_error + string) \<times> 's world" where
  "chat_completion E req w =
     (case chat E req (collab w) of
        (res, s') \<Rightarrow> (res, \<lparr> collab = s', sent = sent w @ [req] \<rparr>))"

definition fixJsonOnly :: "'s env \<Rightarrow> string \<Rightarrow> 's world \<Rightarrow> (js_error + string) \<times> 's world" where
  "fixJsonOnly E raw w = chat_completion E (FixJson raw) w"

definition generateItineraryOptionB ::
  "'s env \<Rightarrow> TripRequest \<Rightarrow> AllowedLists \<Rightarrow> 's world \<Rightarrow> (js_error + string) \<times> 's world" where
  "generateItineraryOptionB E trip al w = chat_completion E (Generate trip al) w"

definition reviseItineraryJson :: "'s env \<Rightarrow> ReviseArgs \<Rightarrow> 's world \<Rightarrow> (js_error + string) \<times> 's world" where
  "reviseItineraryJson E args w = chat_completion E (Revise args) w"

definition extractFirstJsonObject :: "'s env \<Rightarrow> string \<Rightarrow> js_error + json" where
  "extractFirstJsonObject E raw =
     (case extractFirstJsonSlice raw (CHR ''{'') (CHR ''}'') of
        Inl e \<Rightarrow> Inl e
      | Inr sl \<Rightarrow> (case JSON_parse E sl of None \<Rightarrow> Inl SyntaxError | Some obj \<Rightarrow> Inr obj))"

text \<open>\<open>try { return extractFirstJsonObject(raw) } catch { ... fixJsonOnly ... }\<close>\<close>

definition parseJsonObjectSafe :: "'s env \<Rightarrow> string \<Rightarrow> 's world \<Rightarrow> (js_error + json) \<times> 's world" where
  "parseJsonObjectSafe E raw w =
     (case extractFirstJsonObject E raw of
        Inr obj \<Rightarrow> (Inr obj, w)
      | Inl e \<Rightarrow>
          (case fixJsonOnly E raw w of
             (Inl e', w') \<Rightarrow> (Inl e', w')
           | (Inr fixed, w') \<Rightarrow> (extractFirstJsonObject E fixed, w')))"

definition validate :: "TripRequest \<Rightarrow> Itinerary \<Rightarrow> AllowedLists \<Rightarrow> ValidationResult" where
  "validate trip itinerary al =
     validateItineraryProduction trip itinerary (allowedAttractions al) (allowedRestaurants al)
       (allowedIndoorBackups al)"

definition fixViolations :: "string list" where
  "fixViolations = [''Fix all violations strictly using allowed lists and Option B rules.'']"

definition fixSchema :: "string list" where
  "fixSchema =
     [''Return a FULL Itinerary JSON object (not partial).'',
      ''Must include: summary (string) and days (array). Never omit them.'',
      ''Fix all violations strictly using allowed lists and Option B rules.'']"

text \<open>
  The batch path's loop (planFromIntake.ts):
  \<open>for (let i = 0; i < 2 && !validation.ok; i++) { ... }\<close>, entered with the loop variable
  \<open>i\<close> and the current \<open>itinerary\<close> and \<open>validation\<close>; it ends with both, or with what an
  \<open>await\<close> or \<open>ItinerarySchema.parse\<close> threw.
\<close>

function reviseLoop ::
  "'s env \<Rightarrow> TripRequest \<Rightarrow> AllowedLists \<Rightarrow> nat \<Rightarrow> Itinerary \<Rightarrow> ValidationResult \<Rightarrow> 's world \<Rightarrow>
     (js_error + Itinerary \<times> ValidationResult) \<times> 's world" where
  "reviseLoop E trip al i itinerary validation w =
     (if i < 2 \<and> \<not> ok validation then
        (case reviseItineraryJson E
                \<lparr> r_trip = trip, r_itinerary = itinerary, r_fixes = fixViolations,
                  r_allowed = al, r_violations = Some (violations validation) \<rparr> w of
           (Inl e, w1) \<Rightarrow> (Inl e, w1)
         | (Inr revisedRaw, w1) \<Rightarrow>
             (case parseJsonObjectSafe E revisedRaw w1 of
                (Inl e, w2) \<Rightarrow> (Inl e, w2)
              | (Inr revisedObj, w2) \<Rightarrow>
                  (if looksLikeItinerary revisedObj then
                     (case ItinerarySchema_parse revisedObj of
                        Inl e \<Rightarrow> (Inl e, w2)
                      | Inr revised \<Rightarrow>
                          reviseLoop E trip al (i + 1) revised (validate trip revised al) w2)
                   else reviseLoop E trip al (i + 1) itinerary (validate trip itinerary al) w2)))
      else (Inr (itinerary, validation), w))"
  by pat_completeness auto
termination
  by (relation "measure (\<lambda>(E, trip, al, i, itinerary, validation, w). 2 - i)") auto

declare reviseLoop.simps [simp del]

text \<open>The intake of the HTTP endpoint, as \<open>IntakeSchema\<close> types it.\<close>

record Intake =
  i_destination :: string
  startDate :: string
  endDate :: string
  i_travelers :: int
  i_pace :: Pace
  i_budgetLevel :: BudgetLevel
  i_constraints :: "string list"
  i_interests :: "string list"

text \<open>
  The inclusive day count of \<open>planFromIntake\<close>. The times are whole milliseconds, and for
  the dates the intake's pattern admits the floating-point quotient has the floor of the
  exact one, so \<open>Math.floor(diff / 86400000)\<close> is \<open>diff div 86400000\<close>. A \<open>NaN\<close> time
  makes every later number \<open>NaN\<close>, \<open>Math.max(1, NaN)\<close> included.
\<close>

definition intakeTripLengthDays :: "'s env \<Rightarrow> Intake \<Rightarrow> int option" where
  "intakeTripLengthDays E input =
     (case (Date_getTime E (startDate input @ ''T00:00:00''),
            Date_getTime E (endDate input @ ''T00:00:00'')) of
        (Some start, Some end') \<Rightarrow>
          (let diff = end' - start
           in Some (max 1 (diff div (24 * 60 * 60 * 1000) + 1)))
      | _ \<Rightarrow> None)"

definition intakeTripObj :: "'s env \<Rightarrow> Intake \<Rightarrow> TripObj" where
  "intakeTripObj E input =
     \<lparr> o_destination = i_destination input,
       o_tripLengthDays = intakeTripLengthDays E input,
       o_dates = \<lparr> dates_start = Some (startDate input), dates_end = Some (endDate input) \<rparr>,
       o_travelers = i_travelers input,
       o_budgetLevel = i_budgetLevel input,
       o_pace = i_pace input,
       o_interests = i_interests input,
       o_constraints = i_constraints input,
       o_missingInfoQuestions = [] \<rparr>"

text \<open>What \<open>planFromIntake\<close> returns; the reshaping of the itinerary for the user interface
  (\<open>toUiItinerary\<close>, a total function of the itinerary) is left out.\<close>

record PlanResult =
  p_itinerary :: Itinerary
  p_allowedLists :: AllowedLists
  p_validation :: ValidationResult

definition planFromIntake :: "'s env \<Rightarrow> Intake \<Rightarrow> 's world \<Rightarrow> (js_error + PlanResult) \<times> 's world" where
  "planFromIntake E input w =
     (case TripRequestSchema_parse (intakeTripObj E input) of
        Inl e \<Rightarrow> (Inl e, w)
      | Inr trip \<Rightarrow>
     (case buildCandidatesForCity E (destination trip) (collab w) of
        (Inl e, s1) \<Rightarrow> (Inl e, w\<lparr> collab := s1 \<rparr>)
      | (Inr candidates, s1) \<Rightarrow>
     (let al = allowedListsFromCandidates_batch candidates in
      case generateItineraryOptionB E trip al (w\<lparr> collab := s1 \<rparr>) of
        (Inl e, w2) \<Rightarrow> (Inl e, w2)
      | (Inr raw, w2) \<Rightarrow>
     (case parseJsonObjectSafe E raw w2 of
        (Inl e, w3) \<Rightarrow> (Inl e, w3)
      | (Inr itObj, w3) \<Rightarrow>
     (if \<not> looksLikeItinerary itObj
      then (Inl (Error ''Model did not return itinerary-shaped JSON.''), w3)
      else
     (case ItinerarySchema_parse itObj of
        Inl e \<Rightarrow> (Inl e, w3)
      | Inr itinerary \<Rightarrow>
     (case reviseLoop E trip al 0 itinerary (validate trip itinerary al) w3 of
        (Inl e, w4) \<Rightarrow> (Inl e, w4)
      | (Inr (final, validation), w4) \<Rightarrow>
          (Inr \<lparr> p_itinerary = final, p_allowedLists = al, p_validation = validation \<rparr>, w4))))))))"

text \<open>
  The interactive path's repair step (index.ts, step 7 of \<open>main\<close>, from
  \<open>if (!validation.ok)\<close> to the second validation); the writes of run artifacts are left out.
\<close>

definition main_revise ::
  "'s env \<Rightarrow> TripRequest \<Rightarrow> AllowedLists \<Rightarrow> Itinerary \<Rightarrow> ValidationResult \<Rightarrow> 's world \<Rightarrow>
     (js_error + Itinerary \<times> ValidationResult) \<times> 's world" where
  "main_revise E trip al itinerary validation w =
     (if \<not> ok validation then
        (case reviseItineraryJson E
                \<lparr> r_trip = trip, r_itinerary = itinerary, r_fixes = fixViolations,
                  r_allowed = al, r_violations = Some (violations validation) \<rparr> w of
           (Inl e, w1) \<Rightarrow> (Inl e, w1)
         | (Inr rawRevise1, w1) \<Rightarrow>
             (case parseJsonObjectSafe E rawRevise1 w1 of
                (Inl e, w2) \<Rightarrow> (Inl e, w2)
              | (Inr revisedObj, w2) \<Rightarrow>
                  (if \<not> looksLikeItinerary revisedObj then
                     (case reviseItineraryJson E
                             \<lparr> r_trip = trip, r_itinerary = itinerary, r_fixes = fixSchema,
                               r_allowed = al, r_violations = Some (violations validation) \<rparr> w2 of
                        (Inl e, w3) \<Rightarrow> (Inl e, w3)
                      | (Inr rawRevise1SchemaFix, w3) \<Rightarrow>
                          (case parseJsonObjectSafe E rawRevise1SchemaFix w3 of
                             (Inl e, w4) \<Rightarrow> (Inl e, w4)
                           | (Inr fixedObj, w4) \<Rightarrow>
                               (case ItinerarySchema_parse fixedObj of
                                  Inl e \<Rightarrow> (Inl e, w4)
                                | Inr revised \<Rightarrow> (Inr (revised, validate trip revised al), w4))))
                   else
                     (case ItinerarySchema_parse revisedObj of
                        Inl e \<Rightarrow> (Inl e, w2)
                      | Inr revised \<Rightarrow> (Inr (revised, validate trip revised al), w2)))))
      else (Inr (itinerary, validation), w))"

text \<open>The arguments of the repair requests in a log of requests, in order.\<close>

definition revisions :: "chat_request list \<Rightarrow> ReviseArgs list" where
  "revisions reqs = concat (map (\<lambda>r. case r of Revise a \<Rightarrow> [a] | _ \<Rightarrow> []) reqs)"

text \<open>The arguments of the repair request of one pass of the batch loop.\<close>

definition passArgs :: "TripRequest \<Rightarrow> AllowedLists \<Rightarrow> Itinerary \<Rightarrow> ValidationResult \<Rightarrow> ReviseArgs" where
  "passArgs trip al itinerary validation =
     \<lparr> r_trip = trip, r_itinerary = itinerary, r_fixes = fixViolations, r_allowed = al,
       r_violations = Some (violations validation) \<rparr>"

text \<open>One pass of the batch loop (its body up to the re-validation): the itinerary after
  the pass, or what was thrown.\<close>

definition revisePass ::
  "'s env \<Rightarrow> TripRequest \<Rightarrow> AllowedLists \<Rightarrow> Itinerary \<Rightarrow> ValidationResult \<Rightarrow> 's world \<Rightarrow>
     (js_error + Itinerary) \<times> 's world" where
  "revisePass E trip al itinerary validation w =
     (case reviseItineraryJson E (passArgs trip al itinerary validation) w of
        (Inl e, w1) \<Rightarrow> (Inl e, w1)
      | (Inr revisedRaw, w1) \<Rightarrow>
          (case parseJsonObjectSafe E revisedRaw w1 of
             (Inl e, w2) \<Rightarrow> (Inl e, w2)
           | (Inr revisedObj, w2) \<Rightarrow>
               (if looksLikeItinerary revisedObj then
                  (case ItinerarySchema_parse revisedObj of
                     Inl e \<Rightarrow> (Inl e, w2)
                   | Inr revised \<Rightarrow> (Inr revised, w2))
                else (Inr itinerary, w2))))"

subsection \<open>Concrete collaborators\<close>

definition ex_al :: AllowedLists where
  "ex_al = \<lparr> allowedAttractions = [''Millennium Park''], allowedRestaurants = [''Veggie House''],
     allowedIndoorBackups = [] \<rparr>"

definition good_itinerary :: Itinerary where
  "good_itinerary = \<lparr> summary = ''One day in the park'',
     days = [\<lparr> day = 1, theme = ''Park'',
               blocks = [ex_block ''Millennium Park'', ex_block ''Millennium Park''],
               meals = [''Lunch: Veggie House - Tofu Bowl'', ''Dinner: Veggie House - Vegan Curry''],
               dayNotes = [''Book ahead'', ''Bring a jacket''] \<rparr>],
     mustBook = [], rainBackups = [], estimatedDailyCostRange = None \<rparr>"

text \<open>The same itinerary as JSON text and as the value \<open>JSON.parse\<close> gives for it.\<close>

definition good_text :: string where
  "good_text =
     ''{'' @ quoted ''summary'' @ '':'' @ quoted ''One day in the park'' @ '','' @
     quoted ''days'' @ '':[{'' @ quoted ''day'' @ '':1,'' @ quoted ''theme'' @ '':'' @
     quoted ''Park'' @ '','' @ quoted ''blocks'' @ '':[{'' @ quoted ''time'' @ '':'' @
     quoted ''09:00 AM - 11:30 AM'' @ '','' @ quoted ''title'' @ '':'' @
     quoted ''Millennium Park'' @ ''},{'' @ quoted ''time'' @ '':'' @
     quoted ''09:00 AM - 11:30 AM'' @ '','' @ quoted ''title'' @ '':'' @
     quoted ''Millennium Park'' @ ''}],'' @ quoted ''meals'' @ '':['' @
     quoted ''Lunch: Veggie House - Tofu Bowl'' @ '','' @
     quoted ''Dinner: Veggie House - Vegan Curry'' @ ''],'' @ quoted ''notes'' @ '':['' @
     quoted ''Book ahead'' @ '','' @ quoted ''Bring a jacket'' @ '']}]}''"

definition good_block_json :: json where
  "good_block_json =
     JObject [(''time'', JString ''09:00 AM - 11:30 AM''), (''title'', JString ''Millennium Park'')]"

definition good_json :: json where
  "good_json =
     JObject [(''summary'', JString ''One day in the park''),
       (''days'', JArray [JObject [(''day'', JNumber 1), (''theme'', JString ''Park''),
          (''blocks'', JArray [good_block_json, good_block_json]),
          (''meals'', JArray [JString ''Lunch: Veggie House - Tofu Bowl'',
                              JString ''Dinner: Veggie House - Vegan Curry'']),
          (''notes'', JArray [JString ''Book ahead'', JString ''Bring a jacket''])]])]"

definition ex_JSON_parse :: "string \<Rightarrow> json option" where
  "ex_JSON_parse t =
     (if t = ''{}'' then Some (JObject []) else if t = good_text then Some good_json else None)"

text \<open>Midnight UTC of 2025-03-01, 2025-03-03 and 2025-04-15, in milliseconds.\<close>

definition ex_getTime :: "string \<Rightarrow> int option" where
  "ex_getTime t =
     (if t = ''2025-03-01T00:00:00'' then Some 1740787200000
      else if t = ''2025-03-03T00:00:00'' then Some 1740960000000
      else if t = ''2025-04-15T00:00:00'' then Some 1744675200000
      else None)"

text \<open>A completion service that answers every request with \<open>{}\<close>.\<close>

definition stubborn_env :: "unit env" where
  "stubborn_env = \<lparr> chat = (\<lambda>req s. (Inr ''{}'', s)),
     buildCandidatesForCity = (\<lambda>city s. (Inr [], s)),
     JSON_parse = ex_JSON_parse, Date_getTime = ex_getTime \<rparr>"

text \<open>A completion service that answers \<open>{}\<close>, except to a repair request carrying the
  full-object instruction, which it answers with the good itinerary.\<close>

definition helpful_env :: "unit env" where
  "helpful_env = \<lparr> chat = (\<lambda>req s.
        case req of
          Revise a \<Rightarrow> if r_fixes a = fixSchema then (Inr good_text, s) else (Inr ''{}'', s)
        | _ \<Rightarrow> (Inr ''{}'', s)),
     buildCandidatesForCity = (\<lambda>city s. (Inr [], s)),
     JSON_parse = ex_JSON_parse, Date_getTime = ex_getTime \<rparr>"

definition ex_world :: "unit world" where
  "ex_world = \<lparr> collab = (), sent = [] \<rparr>"

definition ex_validation :: ValidationResult where
  "ex_validation = validate ex_trip ex_itinerary ex_al"

definition ex_args :: ReviseArgs where
  "ex_args = passArgs ex_trip ex_al ex_itinerary ex_validation"

definition ex_intake :: "string \<Rightarrow> string \<Rightarrow> Intake" where
  "ex_intake from to = \<lparr> i_destination = ''Chicago'', startDate = from, endDate = to,
     i_travelers = 2, i_pace = relaxed, i_budgetLevel = mid, i_constraints = [''vegetarian''],
     i_interests = [] \<rparr>"

lemmas js_string_eval = toLowerCase_def toLowerChar_def trim_def isWhiteSpace_def
  char_of_def bit_0 Let_def

section \<open>Properties of the allowed-list projector\<close>

lemma remdups_snoc: "remdups (ys @ [x]) = filter (\<lambda>y. y \<noteq> x) (remdups ys) @ [x]"
  by (induction ys) auto

lemma first_seen_Cons: "first_seen (x # xs) = x # filter (\<lambda>y. y \<noteq> x) (first_seen xs)"
  by (simp add: first_seen_def remdups_snoc rev_filter)

lemma first_seen_Nil: "first_seen [] = []"
  by (simp add: first_seen_def)

lemma distinct_first_seen: "distinct (first_seen xs)"
  by (simp add: first_seen_def)

lemma set_first_seen: "set (first_seen xs) = set xs"
  by (simp add: first_seen_def)

lemma subseq_first_seen: "subseq (first_seen xs) xs"
proof (induction xs)
  case Nil
  show ?case by (simp add: first_seen_Nil)
next
  case (Cons x xs)
  have "subseq (filter (\<lambda>y. y \<noteq> x) (first_seen xs)) (first_seen xs)"
    by simp
  from this Cons.IH have "subseq (filter (\<lambda>y. y \<noteq> x) (first_seen xs)) xs"
    by (rule subseq_order.trans)
  then show ?case by (simp add: first_seen_Cons)
qed

lemma Set_spread_fold:
  "fold (\<lambda>x acc. if x \<in> set acc then acc else acc @ [x]) xs acc
     = acc @ filter (\<lambda>x. x \<notin> set acc) (first_seen xs)"
proof (induction xs arbitrary: acc)
  case Nil
  then show ?case by (simp add: first_seen_Nil)
next
  case (Cons x xs)
  show ?case
  proof (cases "x \<in> set acc")
    case True
    have "filter (\<lambda>y. y \<notin> set acc) (filter (\<lambda>y. y \<noteq> x) (first_seen xs))
            = filter (\<lambda>y. y \<notin> set acc) (first_seen xs)"
      using True by (auto intro: filter_cong)
    with True Cons.IH [of acc] show ?thesis
      by (simp add: first_seen_Cons)
  next
    case False
    have "filter (\<lambda>y. y \<notin> set (acc @ [x])) (first_seen xs)
            = filter (\<lambda>y. y \<notin> set acc) (filter (\<lambda>y. y \<noteq> x) (first_seen xs))"
      by (auto intro: filter_cong)
    with False Cons.IH [of "acc @ [x]"] show ?thesis
      by (simp add: first_seen_Cons)
  qed
qed

lemma Set_spread_first_seen: "Set_spread xs = first_seen xs"
  by (simp add: Set_spread_def Set_spread_fold)

lemma cap_take: "cap xs n = take n xs"
  by (simp add: cap_def)

lemma unique_names:
  "unique (map name (filter (\<lambda>c. category c = k) candidates)) = first_seen (trimmed_names k candidates)"
  by (simp add: unique_def Set_spread_first_seen trimmed_names_def comp_def)

lemma projects_cap_unique:
  "projects candidates k n (cap (unique (map name (filter (\<lambda>c. category c = k) candidates))) n)"
proof -
  let ?ns = "trimmed_names k candidates"
  let ?out = "take n (first_seen ?ns)"
  have d: "distinct ?out"
    by (simp add: distinct_first_seen)
  have "set ?out \<subseteq> set ?ns"
    using set_take_subset [of n "first_seen ?ns"] by (simp add: set_first_seen)
  then have m: "\<forall>x\<in>set ?out. \<exists>c\<in>set candidates. category c = k \<and> trim (name c) = x"
    by (auto simp: trimmed_names_def)
  have "subseq ?out (first_seen ?ns)"
    by (metis append_take_drop_id prefix_def prefix_imp_subseq)
  moreover have "subseq (first_seen ?ns) ?ns"
    by (rule subseq_first_seen)
  moreover have "subseq ?ns (map (\<lambda>c. trim (name c)) (filter (\<lambda>c. category c = k) candidates))"
    by (simp add: trimmed_names_def)
  ultimately have s: "subseq ?out (map (\<lambda>c. trim (name c)) (filter (\<lambda>c. category c = k) candidates))"
    by (meson subseq_order.trans)
  show ?thesis
    unfolding projects_def cap_take unique_names using d m s by simp
qed

text \<open>
  C5. For every candidate list, the projector returns (it is a total function with no
  failing branch) three lists in which every name is unique and is the trimmed name of a
  candidate of the matching category, in first-seen order, cut at the cap of the list
  (25, 25, 15 on the interactive path; 60, 40, 30 on the batch path); the empty candidate
  list yields three empty lists.
\<close>

theorem allowedLists_projection:
  "projects candidates attraction 25 (allowedAttractions (allowedListsFromCandidates candidates)) \<and>
   projects candidates restaurant 25 (allowedRestaurants (allowedListsFromCandidates candidates)) \<and>
   projects candidates indoor_backup 15 (allowedIndoorBackups (allowedListsFromCandidates candidates)) \<and>
   projects candidates attraction 60 (allowedAttractions (allowedListsFromCandidates_batch candidates)) \<and>
   projects candidates restaurant 40 (allowedRestaurants (allowedListsFromCandidates_batch candidates)) \<and>
   projects candidates indoor_backup 30 (allowedIndoorBackups (allowedListsFromCandidates_batch candidates)) \<and>
   allowedListsFromCandidates [] =
     \<lparr>allowedAttractions = [], allowedRestaurants = [], allowedIndoorBackups = []\<rparr> \<and>
   allowedListsFromCandidates_batch [] =
     \<lparr>allowedAttractions = [], allowedRestaurants = [], allowedIndoorBackups = []\<rparr>"
proof -
  have e: "allowedListsFromCandidates [] =
      \<lparr>allowedAttractions = [], allowedRestaurants = [], allowedIndoorBackups = []\<rparr>"
    by (simp add: allowedListsFromCandidates_def unique_def Set_spread_def cap_def)
  have eb: "allowedListsFromCandidates_batch [] =
      \<lparr>allowedAttractions = [], allowedRestaurants = [], allowedIndoorBackups = []\<rparr>"
    by (simp add: allowedListsFromCandidates_batch_def unique_def Set_spread_def cap_def)
  show ?thesis
    unfolding e eb
    by (simp add: allowedListsFromCandidates_def allowedListsFromCandidates_batch_def Let_def
        projects_cap_unique)
qed

lemma cafes_projected:
  "allowedListsFromCandidates cafes =
     \<lparr>allowedAttractions = [], allowedRestaurants = [''Cafe A'', ''cafe a'', ''Cafe B''], allowedIndoorBackups = []\<rparr>"
  by (simp add: allowedListsFromCandidates_def cafes_def unique_def Set_spread_def cap_def trim_def isWhiteSpace_def)

theorem allowedLists_projection_witness:
  "projects cafes attraction 25 [] \<and>
   projects cafes restaurant 25 [''Cafe A'', ''cafe a'', ''Cafe B''] \<and>
   projects cafes indoor_backup 15 []"
  using allowedLists_projection [of cafes] by (simp add: cafes_projected)

subsection \<open>Candidate deduplication\<close>

lemma dedupe_loop_out: "dedupe_loop cands seen out = out @ dedupe_loop cands seen []"
proof (induction cands arbitrary: seen out)
  case Nil
  show ?case by simp
next
  case (Cons c cands)
  show ?case
    using Cons.IH [of seen out] Cons.IH [of "insert (toLowerCase (trim (name c))) seen" "out @ [c]"]
      Cons.IH [of "insert (toLowerCase (trim (name c))) seen" "[c]"]
    by (simp add: Let_def)
qed

lemma dedupe_loop_Cons:
  "dedupe_loop (c # cands) seen [] =
     (if dedupe_key c = [] \<or> dedupe_key c \<in> seen then dedupe_loop cands seen []
      else c # dedupe_loop cands (insert (dedupe_key c) seen) [])"
  using dedupe_loop_out [of cands "insert (dedupe_key c) seen" "[c]"]
  by (simp add: Let_def dedupe_key_def)

lemma dedupe_loop_keys:
  "map dedupe_key (dedupe_loop cands seen []) =
     filter (\<lambda>k. k \<notin> seen) (first_seen (filter (\<lambda>k. k \<noteq> []) (map dedupe_key cands)))"
proof (induction cands arbitrary: seen)
  case Nil
  show ?case by (simp add: first_seen_Nil)
next
  case (Cons c cands)
  let ?ks = "first_seen (filter (\<lambda>k. k \<noteq> []) (map dedupe_key cands))"
  show ?case
  proof (cases "dedupe_key c = []")
    case True
    then show ?thesis using Cons.IH [of seen] by (simp add: dedupe_loop_Cons del: dedupe_loop.simps)
  next
    case ne: False
    show ?thesis
    proof (cases "dedupe_key c \<in> seen")
      case True
      have "filter (\<lambda>k. k \<notin> seen) (filter (\<lambda>k. k \<noteq> dedupe_key c) ?ks) = filter (\<lambda>k. k \<notin> seen) ?ks"
        using True by (auto intro: filter_cong)
      then show ?thesis using ne True Cons.IH [of seen]
        by (simp add: dedupe_loop_Cons first_seen_Cons del: dedupe_loop.simps)
    next
      case False
      have "filter (\<lambda>k. k \<notin> insert (dedupe_key c) seen) ?ks
              = filter (\<lambda>k. k \<notin> seen) (filter (\<lambda>k. k \<noteq> dedupe_key c) ?ks)"
        by (auto intro: filter_cong)
      then show ?thesis using ne False Cons.IH [of "insert (dedupe_key c) seen"]
        by (simp add: dedupe_loop_Cons first_seen_Cons del: dedupe_loop.simps)
    qed
  qed
qed

lemma dedupe_loop_subseq: "subseq (dedupe_loop cands seen []) cands"
proof (induction cands arbitrary: seen)
  case Nil
  show ?case by simp
next
  case (Cons c cands)
  show ?case using Cons.IH [of seen] Cons.IH [of "insert (dedupe_key c) seen"]
    by (auto simp: dedupe_loop_Cons simp del: dedupe_loop.simps)
qed

lemma dedupe_loop_unseen:
  "c \<in> set (dedupe_loop cands seen []) \<Longrightarrow> dedupe_key c \<notin> seen \<and> dedupe_key c \<noteq> []"
proof (induction cands arbitrary: seen)
  case Nil
  then show ?case by simp
next
  case (Cons d cands)
  show ?case
  proof (cases "dedupe_key d = [] \<or> dedupe_key d \<in> seen")
    case True
    with Cons.prems have "c \<in> set (dedupe_loop cands seen [])"
      by (simp add: dedupe_loop_Cons del: dedupe_loop.simps)
    then show ?thesis by (rule Cons.IH)
  next
    case False
    with Cons.prems have "c = d \<or> c \<in> set (dedupe_loop cands (insert (dedupe_key d) seen) [])"
      by (simp add: dedupe_loop_Cons del: dedupe_loop.simps)
    then show ?thesis
    proof
      assume "c = d"
      with False show ?thesis by simp
    next
      assume "c \<in> set (dedupe_loop cands (insert (dedupe_key d) seen) [])"
      then have "dedupe_key c \<notin> insert (dedupe_key d) seen \<and> dedupe_key c \<noteq> []"
        by (rule Cons.IH)
      then show ?thesis by simp
    qed
  qed
qed

lemma dedupe_loop_first:
  "c \<in> set (dedupe_loop cands seen []) \<Longrightarrow> find (\<lambda>d. dedupe_key d = dedupe_key c) cands = Some c"
proof (induction cands arbitrary: seen)
  case Nil
  then show ?case by simp
next
  case (Cons d cands)
  show ?case
  proof (cases "dedupe_key d = [] \<or> dedupe_key d \<in> seen")
    case True
    with Cons.prems have m: "c \<in> set (dedupe_loop cands seen [])"
      by (simp add: dedupe_loop_Cons del: dedupe_loop.simps)
    then have "dedupe_key c \<notin> seen \<and> dedupe_key c \<noteq> []"
      by (rule dedupe_loop_unseen)
    with True have "dedupe_key d \<noteq> dedupe_key c" by auto
    with Cons.IH [OF m] show ?thesis by simp
  next
    case False
    with Cons.prems have "c = d \<or> c \<in> set (dedupe_loop cands (insert (dedupe_key d) seen) [])"
      by (simp add: dedupe_loop_Cons del: dedupe_loop.simps)
    then show ?thesis
    proof
      assume "c = d"
      then show ?thesis by simp
    next
      assume m: "c \<in> set (dedupe_loop cands (insert (dedupe_key d) seen) [])"
      then have "dedupe_key c \<notin> insert (dedupe_key d) seen \<and> dedupe_key c \<noteq> []"
        by (rule dedupe_loop_unseen)
      then have "dedupe_key d \<noteq> dedupe_key c" by auto
      with Cons.IH [OF m] show ?thesis by simp
    qed
  qed
qed

lemma cafes_deduped:
  "dedupe cafes =
     [\<lparr>name = ''Cafe A'', category = restaurant, url = ''https://a.example'', cnotes = None\<rparr>,
      \<lparr>name = ''Cafe B'', category = restaurant, url = ''https://b.example'', cnotes = None\<rparr>]"
  by (simp add: dedupe_def cafes_def Let_def toLowerCase_def toLowerChar_def trim_def
      isWhiteSpace_def char_of_def bit_0)

lemma dedupe_keys: "map dedupe_key (dedupe cands) = first_seen (filter (\<lambda>k. k \<noteq> []) (map dedupe_key cands))"
  by (simp add: dedupe_def dedupe_loop_keys)

lemma unique_first_seen: "unique arr = first_seen (filter (\<lambda>s. s \<noteq> []) (map trim arr))"
  by (simp add: unique_def Set_spread_first_seen)

lemma cafes_deduped_projected:
  "allowedListsFromCandidates (dedupe cafes) =
     \<lparr>allowedAttractions = [], allowedRestaurants = [''Cafe A'', ''Cafe B''], allowedIndoorBackups = []\<rparr>"
  unfolding cafes_deduped
  by (simp add: allowedListsFromCandidates_def unique_def Set_spread_def cap_def trim_def isWhiteSpace_def)

lemma cafes_deduped_projected_batch:
  "allowedListsFromCandidates_batch (dedupe cafes) =
     \<lparr>allowedAttractions = [], allowedRestaurants = [''Cafe A'', ''Cafe B''], allowedIndoorBackups = []\<rparr>"
  unfolding cafes_deduped
  by (simp add: allowedListsFromCandidates_batch_def unique_def Set_spread_def cap_def trim_def isWhiteSpace_def)

text \<open>
  C2, as stated, fails on the projector: applied to the three candidates it keeps
  \<open>"cafe a"\<close> beside \<open>"Cafe A"\<close>, because \<open>unique\<close> compares trimmed names
  case-sensitively.
\<close>

theorem projector_trims_only_counterexample:
  "allowedRestaurants (allowedListsFromCandidates cafes) = [''Cafe A'', ''cafe a'', ''Cafe B''] \<and>
   allowedRestaurants (allowedListsFromCandidates cafes) \<noteq> [''Cafe A'', ''Cafe B'']"
  by (simp add: cafes_projected)

text \<open>
  C2, amended. The projector's duplicate identity is the trimmed name, compared
  case-sensitively, and it outputs the trimmed names in first-seen order. The lowercase-trimmed
  identity is that of \<open>dedupe\<close> in the Candidate Pool Builder, which runs before the
  projection and keeps the first-seen candidate of every key; projecting the deduplicated
  example yields exactly \<open>["Cafe A", "Cafe B"]\<close> on both paths.
\<close>

theorem dedupe_then_project:
  "allowedRestaurants (allowedListsFromCandidates (dedupe cafes)) = [''Cafe A'', ''Cafe B''] \<and>
   allowedRestaurants (allowedListsFromCandidates_batch (dedupe cafes)) = [''Cafe A'', ''Cafe B''] \<and>
   unique arr = first_seen (filter (\<lambda>s. s \<noteq> []) (map trim arr)) \<and>
   map dedupe_key (dedupe cands) = first_seen (filter (\<lambda>k. k \<noteq> []) (map dedupe_key cands)) \<and>
   subseq (dedupe cands) cands \<and>
   (\<forall>c\<in>set (dedupe cands). find (\<lambda>d. dedupe_key d = dedupe_key c) cands = Some c)"
  using dedupe_loop_first [of _ cands "{}"] dedupe_loop_subseq [of cands "{}"]
  by (simp add: cafes_deduped_projected cafes_deduped_projected_batch unique_first_seen
      dedupe_keys) (simp add: dedupe_def)

theorem dedupe_then_project_witness:
  "unique (map name cafes) = [''Cafe A'', ''cafe a'', ''Cafe B''] \<and>
   map dedupe_key (dedupe cafes) = [''cafe a'', ''cafe b''] \<and>
   find (\<lambda>d. dedupe_key d = ''cafe a'') cafes =
     Some \<lparr>name = ''Cafe A'', category = restaurant, url = ''https://a.example'', cnotes = None\<rparr>"
proof -
  have k: "dedupe_key \<lparr>name = ''Cafe A'', category = restaurant, url = ''https://a.example'', cnotes = None\<rparr> = ''cafe a''"
    by (simp add: dedupe_key_def js_string_eval)
  have u: "unique (map name cafes) = [''Cafe A'', ''cafe a'', ''Cafe B'']"
    by (simp add: cafes_def unique_def Set_spread_def trim_def isWhiteSpace_def)
  from dedupe_then_project [of "map name cafes" cafes] show ?thesis
    unfolding u by (simp add: cafes_deduped k dedupe_key_def js_string_eval)
qed

section \<open>Properties of the validator\<close>

subsection \<open>Every rule appends its findings\<close>

lemma fold_push_append:
  assumes "\<And>x v. step x v = v @ step x []"
  shows "fold step xs v = v @ fold step xs []"
proof (induction xs arbitrary: v)
  case Nil
  show ?case by simp
next
  case (Cons x xs)
  have "fold step (x # xs) v = fold step xs (step x v)" by simp
  also have "\<dots> = step x v @ fold step xs []" by (rule Cons.IH)
  also have "\<dots> = v @ step x [] @ fold step xs []" using assms [of x v] by simp
  also have "step x [] @ fold step xs [] = fold step xs (step x [])" by (rule Cons.IH [symmetric])
  finally show ?case by simp
qed

lemma fold_push_concat:
  assumes "\<And>x v. step x v = v @ step x []"
  shows "fold step xs v = v @ concat (map (\<lambda>x. step x []) xs)"
proof (induction xs arbitrary: v)
  case Nil
  show ?case by simp
next
  case (Cons x xs)
  have "fold step (x # xs) v = step x v @ concat (map (\<lambda>x. step x []) xs)"
    using Cons.IH [of "step x v"] by simp
  then show ?case using assms [of x v] by simp
qed

lemma paceStep_append: "paceStep trip d vs = vs @ paceStep trip d []"
  by (simp add: paceStep_def push_def Let_def)

lemma notesStep_append: "notesStep d vs = vs @ notesStep d []"
  by (simp add: notesStep_def push_def)

lemma blockStep_append: "blockStep A d b vs = vs @ blockStep A d b []"
  by (simp add: blockStep_def push_def Let_def)

lemma mealStep_append: "mealStep trip R m vs = vs @ mealStep trip R m []"
  by (simp add: mealStep_def push_def Let_def split: option.split)

lemma rainStep_append: "rainStep B rb vs = vs @ rainStep B rb []"
  by (simp add: rainStep_def push_def)


lemma dayNumberStep_append:
  "(if c then push v m else v) = v @ (if c then push [] m else [])"
  by (simp add: push_def)

lemma checkDayCount_append: "checkDayCount trip it vs = vs @ checkDayCount trip it []"
  by (simp add: checkDayCount_def push_def)

lemma checkDayNumbers_append: "checkDayNumbers trip it vs = vs @ checkDayNumbers trip it []"
  unfolding checkDayNumbers_def Let_def
  by (rule fold_push_append) (simp add: push_def)

lemma checkPace_append: "checkPace trip it vs = vs @ checkPace trip it []"
  unfolding checkPace_def by (rule fold_push_append) (rule paceStep_append)

lemma checkNotes_append: "checkNotes it vs = vs @ checkNotes it []"
  unfolding checkNotes_def by (rule fold_push_append) (rule notesStep_append)

lemma blocksOfDay_append:
  "fold (blockStep A d) bs vs = vs @ fold (blockStep A d) bs []"
  by (rule fold_push_append) (rule blockStep_append)

lemma checkBlocks_append: "checkBlocks A it vs = vs @ checkBlocks A it []"
  unfolding checkBlocks_def by (rule fold_push_append) (rule blocksOfDay_append)

lemma mealsOfDay_append:
  "fold (mealStep trip R) ms vs = vs @ fold (mealStep trip R) ms []"
  by (rule fold_push_append) (rule mealStep_append)

lemma mealsStep_eq:
  "mealsStep trip R d vs = vs @ missingMealMessages d @ fold (mealStep trip R) (meals d) []"
proof -
  have "mealsStep trip R d vs = fold (mealStep trip R) (meals d) (vs @ missingMealMessages d)"
    by (simp add: mealsStep_def push_def Let_def missingMealMessages_def)
  also have "\<dots> = (vs @ missingMealMessages d) @ fold (mealStep trip R) (meals d) []"
    by (rule mealsOfDay_append)
  finally show ?thesis by simp
qed

lemma mealsStep_append: "mealsStep trip R d vs = vs @ mealsStep trip R d []"
  using mealsStep_eq [of trip R d vs] mealsStep_eq [of trip R d "[]"] by simp

lemma checkMeals_append: "checkMeals trip R it vs = vs @ checkMeals trip R it []"
  unfolding checkMeals_def by (rule fold_push_append) (rule mealsStep_append)

lemma checkRainBackups_append: "checkRainBackups B it vs = vs @ checkRainBackups B it []"
  unfolding checkRainBackups_def by (rule fold_push_append) (rule rainStep_append)

lemma validate_violations:
  "violations (validateItineraryProduction trip it A R B) =
     checkDayCount trip it [] @ checkDayNumbers trip it [] @ checkPace trip it [] @
     checkNotes it [] @ checkBlocks A it [] @ checkMeals trip R it [] @ checkRainBackups B it []"
proof -
  let ?v1 = "checkDayCount trip it []"
  let ?v2 = "checkDayNumbers trip it ?v1"
  let ?v3 = "checkPace trip it ?v2"
  let ?v4 = "checkNotes it ?v3"
  let ?v5 = "checkBlocks A it ?v4"
  let ?v6 = "checkMeals trip R it ?v5"
  let ?v7 = "checkRainBackups B it ?v6"
  have "violations (validateItineraryProduction trip it A R B) = ?v7"
    by (simp add: validateItineraryProduction_def Let_def)
  also have "?v7 = ?v6 @ checkRainBackups B it []" by (rule checkRainBackups_append)
  also have "?v6 = ?v5 @ checkMeals trip R it []" by (rule checkMeals_append)
  also have "?v5 = ?v4 @ checkBlocks A it []" by (rule checkBlocks_append)
  also have "?v4 = ?v3 @ checkNotes it []" by (rule checkNotes_append)
  also have "?v3 = ?v2 @ checkPace trip it []" by (rule checkPace_append)
  also have "?v2 = ?v1 @ checkDayNumbers trip it []" by (rule checkDayNumbers_append)
  finally show ?thesis by simp
qed

lemma validate_ok:
  "ok (validateItineraryProduction trip it A R B) \<longleftrightarrow>
   violations (validateItineraryProduction trip it A R B) = []"
  by (simp add: validateItineraryProduction_def Let_def)

subsection \<open>Telling the rules' messages apart\<close>

lemma digit_not_space: "k < 10 \<Longrightarrow> ''0123456789'' ! k \<noteq> CHR '' ''"
  using nth_mem [of k "''0123456789''"] by auto

lemma natToString_no_space: "CHR '' '' \<notin> set (natToString n)"
proof (induction n rule: natToString.induct)
  case (1 n)
  show ?case
  proof (cases "n < 10")
    case True
    then show ?thesis using digit_not_space [of n] by (subst natToString.simps) auto
  next
    case False
    have "n mod 10 < 10" by simp
    then have "''0123456789'' ! (n mod 10) \<noteq> CHR '' ''" by (rule digit_not_space)
    with False "1.IH" show ?thesis by (subst natToString.simps) auto
  qed
qed

lemma numToString_no_space: "CHR '' '' \<notin> set (numToString i)"
  using natToString_no_space by (simp add: numToString_def)

lemma dropWhile_number:
  "dropWhile (\<lambda>c. c \<noteq> CHR '' '') (numToString i @ CHR '' '' # rest) = CHR '' '' # rest"
proof -
  have "\<And>x. x \<in> set (numToString i) \<Longrightarrow> x \<noteq> CHR '' ''"
    using numToString_no_space [of i] by blast
  then show ?thesis by (simp add: dropWhile_append2)
qed

lemma isPaceMessage_paceMessage: "isPaceMessage (paceMessage trip d)"
  by (simp add: isPaceMessage_def paceMessage_def dropWhile_number)

lemma fold_push_filter_map:
  assumes "\<And>x v. step x v = v @ (if P x then [f x] else [])"
  shows "fold step xs v = v @ map f (filter P xs)"
proof (induction xs arbitrary: v)
  case Nil
  show ?case by simp
next
  case (Cons x xs)
  have "fold step (x # xs) v = step x v @ map f (filter P xs)"
    using Cons.IH [of "step x v"] by simp
  also have "step x v = v @ (if P x then [f x] else [])" by (rule assms)
  finally show ?case by simp
qed

lemma paceStep_out:
  "paceStep trip d vs =
     vs @ (if \<not> inPaceRange (pace trip) (length (blocks d)) then [paceMessage trip d] else [])"
  by (cases "pace trip") (simp_all add: paceStep_def inPaceRange_def paceMessage_def push_def Let_def)

lemma checkPace_out:
  "checkPace trip it vs =
     vs @ map (paceMessage trip) (filter (\<lambda>d. \<not> inPaceRange (pace trip) (length (blocks d))) (days it))"
  unfolding checkPace_def by (rule fold_push_filter_map) (rule paceStep_out)


lemma fold_push_all:
  assumes "\<And>x v m. m \<in> set (step x v) \<Longrightarrow> m \<in> set v \<or> N m"
  shows "m \<in> set (fold step xs v) \<Longrightarrow> m \<in> set v \<or> N m"
proof (induction xs arbitrary: v)
  case Nil
  then show ?case by simp
next
  case (Cons x xs)
  from Cons.prems have "m \<in> set (fold step xs (step x v))" by simp
  then have "m \<in> set (step x v) \<or> N m" by (rule Cons.IH)
  then show ?case using assms [of m x v] by blast
qed

lemma filter_none: "(\<And>m. m \<in> set xs \<Longrightarrow> \<not> Q m) \<Longrightarrow> filter Q xs = []"
  by (induction xs) auto

lemma checkDayCount_other: "m \<in> set (checkDayCount trip it []) \<Longrightarrow> otherMessage m"
  by (auto simp: checkDayCount_def push_def otherMessage_def isPaceMessage_def
      isAttractionMessage_def split: if_splits)

lemma checkDayNumbers_other: "m \<in> set (checkDayNumbers trip it []) \<Longrightarrow> otherMessage m"
proof -
  assume "m \<in> set (checkDayNumbers trip it [])"
  then have "m \<in> set [] \<or> otherMessage m"
    unfolding checkDayNumbers_def Let_def
    by (rule fold_push_all [rotated])
       (auto simp: push_def otherMessage_def isPaceMessage_def isAttractionMessage_def
          split: if_splits)
  then show ?thesis by simp
qed

lemma notesStep_other: "m \<in> set (notesStep d v) \<Longrightarrow> m \<in> set v \<or> otherMessage m"
  by (auto simp: notesStep_def push_def otherMessage_def isPaceMessage_def
      isAttractionMessage_def dropWhile_number split: if_splits)

lemma checkNotes_other: "m \<in> set (checkNotes it []) \<Longrightarrow> otherMessage m"
  using fold_push_all [of notesStep otherMessage m "days it" "[]", OF notesStep_other]
  by (simp add: checkNotes_def)

lemma rainStep_other: "m \<in> set (rainStep B rb v) \<Longrightarrow> m \<in> set v \<or> otherMessage m"
  by (auto simp: rainStep_def push_def otherMessage_def isPaceMessage_def
      isAttractionMessage_def split: if_splits)

lemma checkRainBackups_other: "m \<in> set (checkRainBackups B it []) \<Longrightarrow> otherMessage m"
  using fold_push_all [of "rainStep B" otherMessage m "rainBackups it" "[]", OF rainStep_other]
  by (simp add: checkRainBackups_def)

lemma mealStep_other: "m \<in> set (mealStep trip R meal v) \<Longrightarrow> m \<in> set v \<or> otherMessage m"
  by (auto simp: mealStep_def push_def otherMessage_def isPaceMessage_def
      isAttractionMessage_def Let_def split: if_splits option.splits)

lemma missingMealMessages_other: "m \<in> set (missingMealMessages d) \<Longrightarrow> otherMessage m"
  by (auto simp: missingMealMessages_def otherMessage_def isPaceMessage_def
      isAttractionMessage_def dropWhile_number split: if_splits)

lemma mealsStep_other: "m \<in> set (mealsStep trip R d v) \<Longrightarrow> m \<in> set v \<or> otherMessage m"
proof -
  assume "m \<in> set (mealsStep trip R d v)"
  then have "m \<in> set v \<or> m \<in> set (missingMealMessages d) \<or>
      m \<in> set (fold (mealStep trip R) (meals d) [])"
    by (simp add: mealsStep_eq)
  moreover have "m \<in> set (fold (mealStep trip R) (meals d) []) \<Longrightarrow> otherMessage m"
    using fold_push_all [of "mealStep trip R" otherMessage m "meals d" "[]", OF mealStep_other]
    by simp
  ultimately show ?thesis using missingMealMessages_other by blast
qed

lemma checkMeals_other: "m \<in> set (checkMeals trip R it []) \<Longrightarrow> otherMessage m"
  using fold_push_all [of "mealsStep trip R" otherMessage m "days it" "[]", OF mealsStep_other]
  by (simp add: checkMeals_def)


lemma blockStep_not_pace: "m \<in> set (blockStep A d b v) \<Longrightarrow> m \<in> set v \<or> \<not> isPaceMessage m"
  by (auto simp: blockStep_def push_def isPaceMessage_def Let_def dropWhile_number
      split: if_splits)

lemma checkBlocks_not_pace: "m \<in> set (checkBlocks A it []) \<Longrightarrow> \<not> isPaceMessage m"
proof -
  have inner: "\<And>d v m. m \<in> set (fold (blockStep A d) (blocks d) v) \<Longrightarrow> m \<in> set v \<or> \<not> isPaceMessage m"
    by (rule fold_push_all [of "blockStep A _" "\<lambda>m. \<not> isPaceMessage m"]) (rule blockStep_not_pace)
  assume "m \<in> set (checkBlocks A it [])"
  then have "m \<in> set [] \<or> \<not> isPaceMessage m"
    unfolding checkBlocks_def
    by (rule fold_push_all [of "\<lambda>d v. fold (blockStep A d) (blocks d) v" "\<lambda>m. \<not> isPaceMessage m", rotated])
       (rule inner)
  then show ?thesis by simp
qed

lemma concat_map_if:
  "concat (map (\<lambda>x. if P x then [f x] else []) xs) = map f (filter P xs)"
  by (induction xs) simp_all

lemma blockStep_attraction:
  "filter isAttractionMessage (blockStep A d b []) =
     (if title b \<notin> set A then [attractionMessage b] else [])"
  by (simp add: blockStep_def push_def isAttractionMessage_def attractionMessage_def Let_def)

lemma checkBlocks_attraction:
  "filter isAttractionMessage (checkBlocks A it []) =
     map attractionMessage (filter (\<lambda>b. title b \<notin> set A) (allBlocks it))"
proof -
  have day: "\<And>d. fold (blockStep A d) (blocks d) [] = concat (map (\<lambda>b. blockStep A d b []) (blocks d))"
    using fold_push_concat [of "blockStep A _" "blocks _" "[]", OF blockStep_append] by simp
  have "checkBlocks A it [] = concat (map (\<lambda>d. fold (blockStep A d) (blocks d) []) (days it))"
    unfolding checkBlocks_def
    using fold_push_concat [of "\<lambda>d v. fold (blockStep A d) (blocks d) v" "days it" "[]", OF blocksOfDay_append]
    by simp
  then have "filter isAttractionMessage (checkBlocks A it []) =
      concat (map (\<lambda>d. concat (map (\<lambda>b. filter isAttractionMessage (blockStep A d b [])) (blocks d))) (days it))"
    by (simp add: day filter_concat comp_def)
  also have "\<dots> = concat (map (\<lambda>d. map attractionMessage (filter (\<lambda>b. title b \<notin> set A) (blocks d))) (days it))"
    by (simp only: blockStep_attraction concat_map_if)
  also have "\<dots> = map attractionMessage (filter (\<lambda>b. title b \<notin> set A) (allBlocks it))"
    by (simp add: allBlocks_def map_concat filter_concat comp_def)
  finally show ?thesis .
qed

lemma paceMessage_not_attraction: "\<not> isAttractionMessage (paceMessage trip d)"
  by (simp add: isAttractionMessage_def paceMessage_def)

lemma checkPace_not_attraction: "filter isAttractionMessage (checkPace trip it []) = []"
  by (rule filter_none) (auto simp: checkPace_out paceMessage_not_attraction)

lemma checkPace_all_pace: "filter isPaceMessage (checkPace trip it []) = checkPace trip it []"
  by (auto simp: checkPace_out isPaceMessage_paceMessage)

lemma others_filtered:
  assumes "\<And>m. m \<in> set xs \<Longrightarrow> otherMessage m"
  shows "filter isPaceMessage xs = []" and "filter isAttractionMessage xs = []"
  using assms by (auto simp: otherMessage_def intro!: filter_none)

lemma validate_pace_messages:
  "filter isPaceMessage (violations (validateItineraryProduction trip it A R B)) =
     map (paceMessage trip) (filter (\<lambda>d. \<not> inPaceRange (pace trip) (length (blocks d))) (days it))"
proof -
  have "filter isPaceMessage (checkBlocks A it []) = []"
    by (rule filter_none) (rule checkBlocks_not_pace)
  then have "filter isPaceMessage (violations (validateItineraryProduction trip it A R B)) =
      checkPace trip it []"
    by (simp add: validate_violations checkPace_all_pace
        others_filtered(1) [OF checkDayCount_other] others_filtered(1) [OF checkDayNumbers_other]
        others_filtered(1) [OF checkNotes_other] others_filtered(1) [OF checkMeals_other]
        others_filtered(1) [OF checkRainBackups_other])
  then show ?thesis using checkPace_out [of trip it "[]"] by simp
qed

lemma validate_attraction_messages:
  "filter isAttractionMessage (violations (validateItineraryProduction trip it A R B)) =
     map attractionMessage (filter (\<lambda>b. title b \<notin> set A) (allBlocks it))"
  by (simp add: validate_violations checkBlocks_attraction checkPace_not_attraction
        others_filtered(2) [OF checkDayCount_other] others_filtered(2) [OF checkDayNumbers_other]
        others_filtered(2) [OF checkNotes_other] others_filtered(2) [OF checkMeals_other]
        others_filtered(2) [OF checkRainBackups_other])

subsection \<open>Meal parsing\<close>

lemma str_includes_sublist: "str_includes s sub \<longleftrightarrow> sublist sub s"
  by (induction s) (simp_all add: sublist_Cons_right)

lemma split_from_nonempty: "split_from sep cur s \<noteq> []"
  by (induction s arbitrary: cur) simp_all

lemma hd_split_from: "hd (split_from sep cur s) = cur @ before_sep sep s"
  by (induction s arbitrary: cur) simp_all

lemma hd_split: "hd (split s sep) = before_sep sep s"
  by (simp add: split_def hd_split_from)

lemma split_from_char:
  "split_from [c] cur s =
     (cur @ takeWhile (\<lambda>x. x \<noteq> c) s) #
     (if c \<in> set s then split_from [c] [] (drop 1 (dropWhile (\<lambda>x. x \<noteq> c) s)) else [])"
proof (induction s arbitrary: cur)
  case Nil
  show ?case by simp
next
  case (Cons x s)
  show ?case
  proof (cases "x = c")
    case True
    then show ?thesis by simp
  next
    case False
    then show ?thesis using Cons.IH [of "cur @ [x]"] by simp
  qed
qed

lemma join_cons: "ps \<noteq> [] \<Longrightarrow> join (p # ps) sep = p @ sep @ join ps sep"
  by (cases ps) simp_all

lemma join_split_from_char: "join (split_from [c] cur s) [c] = cur @ s"
proof (induction s arbitrary: cur)
  case Nil
  show ?case by simp
next
  case (Cons x s)
  show ?case
  proof (cases "x = c")
    case True
    then show ?thesis
      using Cons.IH [of "[]"] by (simp add: join_cons split_from_nonempty)
  next
    case False
    then show ?thesis using Cons.IH [of "cur @ [x]"] by simp
  qed
qed

lemma split_colon_length: "length (split meal '':'') < 2 \<longleftrightarrow> CHR '':'' \<notin> set meal"
proof -
  have "length (split_from '':'' [] (drop 1 (dropWhile (\<lambda>x. x \<noteq> CHR '':'') meal))) \<noteq> 0"
    using split_from_nonempty by simp
  then show ?thesis
    unfolding split_def by (subst split_from_char) auto
qed

lemma join_after_colon:
  "CHR '':'' \<in> set meal \<Longrightarrow> join (drop (Suc 0) (split meal '':'')) '':'' = after_first_colon meal"
  unfolding split_def after_first_colon_def
  by (subst split_from_char) (simp add: join_split_from_char)

lemma dropWhile_absent: "c \<notin> set s \<Longrightarrow> dropWhile (\<lambda>x. x \<noteq> c) s = []"
  by (induction s) auto

lemma after_first_colon_none: "CHR '':'' \<notin> set meal \<Longrightarrow> after_first_colon meal = []"
  by (simp add: after_first_colon_def dropWhile_absent del: dropWhile_eq_Nil_conv)

lemma mealRestaurant_none: "CHR '':'' \<notin> set meal \<Longrightarrow> mealRestaurant meal = []"
  by (simp add: mealRestaurant_def after_first_colon_none trim_def)

lemma extract_eq:
  "extractRestaurantNameFromMeal meal =
     (if mealRestaurant meal = [] then None else Some (mealRestaurant meal))"
proof (cases "CHR '':'' \<in> set meal")
  case True
  then show ?thesis
    by (simp add: extractRestaurantNameFromMeal_def split_colon_length join_after_colon hd_split
        mealRestaurant_def Let_def)
next
  case False
  then show ?thesis
    by (simp add: extractRestaurantNameFromMeal_def split_colon_length mealRestaurant_none)
qed


lemma mealStep_out:
  "mealStep trip R meal vs =
     vs @
     (if mealRestaurant meal = [] then [''Meal format invalid: '' @ quoted meal]
      else if mealRestaurant meal \<in> set R then []
      else [''Invalid restaurant in meals: '' @ quoted (mealRestaurant meal)]) @
     (if ''vegetarian'' \<in> set (constraints trip) \<and> \<not> hasVegHint meal
      then [''Meal may not clearly indicate vegetarian dish: '' @ quoted meal] else [])"
  by (simp add: mealStep_def extract_eq push_def Let_def hasVegHint_def list_ex_iff
      str_includes_sublist)

lemma checkMeals_out:
  "checkMeals trip R it vs =
     vs @ concat (map (\<lambda>d. missingMealMessages d @ concat (map (\<lambda>m. mealStep trip R m []) (meals d)))
                   (days it))"
proof -
  have day: "\<And>d v. mealsStep trip R d v =
      v @ missingMealMessages d @ concat (map (\<lambda>m. mealStep trip R m []) (meals d))"
    using fold_push_concat [of "mealStep trip R" "meals _" "[]", OF mealStep_append]
    by (simp add: mealsStep_eq)
  have "checkMeals trip R it vs = vs @ concat (map (\<lambda>d. mealsStep trip R d []) (days it))"
    unfolding checkMeals_def by (rule fold_push_concat) (rule mealsStep_append)
  then show ?thesis by (simp add: day)
qed

lemma green_table_extract:
  "extractRestaurantNameFromMeal ''Lunch: Green Table - Tofu Banh Mi (Vegetarian)'' = Some ''Green Table''"
  by code_simp

lemma green_table_restaurant:
  "mealRestaurant ''Lunch: Green Table - Tofu Banh Mi (Vegetarian)'' = ''Green Table''"
  using green_table_extract by (simp add: extract_eq split: if_splits)

lemma green_table_hint: "hasVegHint ''Lunch: Green Table - Tofu Banh Mi (Vegetarian)''"
proof -
  have "str_includes (toLowerCase ''Lunch: Green Table - Tofu Banh Mi (Vegetarian)'') ''tofu''"
    by code_simp
  then show ?thesis by (simp add: hasVegHint_def vegHints_def str_includes_sublist)
qed

subsection \<open>The rules\<close>

lemma before_sep_first:
  "(\<exists>rest. s = before_sep sep s @ rest \<and> (rest = [] \<or> prefix sep rest)) \<and>
   (\<forall>j < length (before_sep sep s). \<not> prefix sep (drop j s))"
proof (induction s)
  case Nil
  show ?case by simp
next
  case (Cons c s)
  show ?case
  proof (cases "prefix sep (c # s)")
    case True
    then show ?thesis by simp
  next
    case False
    from Cons.IH obtain rest where r: "s = before_sep sep s @ rest" "rest = [] \<or> prefix sep rest"
      by blast
    have "c # s = before_sep sep (c # s) @ rest" using False r(1) by simp
    moreover have "\<forall>j < length (before_sep sep (c # s)). \<not> prefix sep (drop j (c # s))"
    proof (intro allI impI)
      fix j assume j: "j < length (before_sep sep (c # s))"
      show "\<not> prefix sep (drop j (c # s))"
      proof (cases j)
        case 0
        with False show ?thesis by simp
      next
        case (Suc k)
        with j False have "k < length (before_sep sep s)" by simp
        with Cons.IH have "\<not> prefix sep (drop k s)" by blast
        with Suc show ?thesis by simp
      qed
    qed
    ultimately show ?thesis using r(2) by blast
  qed
qed

lemma ex_validated:
  "validateItineraryProduction ex_trip ex_itinerary [''Millennium Park''] [''Veggie House''] [] =
     \<lparr> ok = False, violations =
        [''Day 1 blocks=1 violates pace=relaxed'',
         ''Invalid attraction in blocks: '' @ quoted ''Art Institute'',
         ''Invalid restaurant in meals: '' @ quoted ''Green Table'',
         ''Invalid restaurant in meals: '' @ quoted ''Green Table'',
         ''Meal may not clearly indicate vegetarian dish: '' @ quoted ''Dinner: Green Table - Pasta''] \<rparr>"
  by code_simp


text \<open>
  C4. The validator takes as restaurant name of a meal the text before the first
  \<open>" - "\<close> of the remainder after the first colon (\<open>mealRestaurant\<close>; the remainder and
  the name are trimmed, which is how \<open>"Lunch: Green Table - Tofu Banh Mi (Vegetarian)"\<close>
  yields \<open>"Green Table"\<close>). For every meal it reports one violation when that portion
  is empty or not a member of the allowed restaurants (exactly one invalid-restaurant
  violation for the example when \<open>"Green Table"\<close> is not allowed), and, when the trip's
  constraints contain \<open>"vegetarian"\<close>, one additional violation when the lower-cased
  meal text contains none of the dietary-signal substrings. The meal rule of the validator
  runs this for every meal of every day.
\<close>

theorem meal_rule:
  "extractRestaurantNameFromMeal meal =
     (if mealRestaurant meal = [] then None else Some (mealRestaurant meal)) \<and>
   extractRestaurantNameFromMeal ''Lunch: Green Table - Tofu Banh Mi (Vegetarian)'' = Some ''Green Table'' \<and>
   mealStep trip R meal vs =
     vs @
     (if mealRestaurant meal = [] then [''Meal format invalid: '' @ quoted meal]
      else if mealRestaurant meal \<in> set R then []
      else [''Invalid restaurant in meals: '' @ quoted (mealRestaurant meal)]) @
     (if ''vegetarian'' \<in> set (constraints trip) \<and> \<not> hasVegHint meal
      then [''Meal may not clearly indicate vegetarian dish: '' @ quoted meal] else []) \<and>
   (''Green Table'' \<notin> set R \<longrightarrow>
      mealStep trip R ''Lunch: Green Table - Tofu Banh Mi (Vegetarian)'' vs =
        vs @ [''Invalid restaurant in meals: '' @ quoted ''Green Table'']) \<and>
   checkMeals trip R itinerary vs =
     vs @ concat (map (\<lambda>d. missingMealMessages d @ concat (map (\<lambda>m. mealStep trip R m []) (meals d)))
                   (days itinerary))"
proof -
  have "''Green Table'' \<notin> set R \<longrightarrow>
      mealStep trip R ''Lunch: Green Table - Tofu Banh Mi (Vegetarian)'' vs =
        vs @ [''Invalid restaurant in meals: '' @ quoted ''Green Table'']"
    by (simp add: mealStep_out green_table_restaurant green_table_hint)
  then show ?thesis
    using extract_eq [of meal] green_table_extract mealStep_out [of trip R meal vs]
      checkMeals_out [of trip R itinerary vs]
    by (simp only: simp_thms)
qed

theorem meal_rule_witness:
  "mealStep ex_trip [''Veggie House''] ''Lunch: Green Table - Tofu Banh Mi (Vegetarian)'' [] =
     [''Invalid restaurant in meals: '' @ quoted ''Green Table''] \<and>
   mealStep ex_trip [''Veggie House''] ''Dinner: Green Table - Pasta'' [] =
     [''Invalid restaurant in meals: '' @ quoted ''Green Table'',
      ''Meal may not clearly indicate vegetarian dish: '' @ quoted ''Dinner: Green Table - Pasta'']"
proof -
  have d: "mealStep ex_trip [''Veggie House''] ''Dinner: Green Table - Pasta'' [] =
     [''Invalid restaurant in meals: '' @ quoted ''Green Table'',
      ''Meal may not clearly indicate vegetarian dish: '' @ quoted ''Dinner: Green Table - Pasta'']"
    by code_simp
  have "''Green Table'' \<notin> set [''Veggie House''] \<longrightarrow>
      mealStep ex_trip [''Veggie House''] ''Lunch: Green Table - Tofu Banh Mi (Vegetarian)'' [] =
        [] @ [''Invalid restaurant in meals: '' @ quoted ''Green Table'']"
    using meal_rule [of "''Lunch: Green Table - Tofu Banh Mi (Vegetarian)''" ex_trip "[''Veggie House'']" "[]" ex_itinerary]
    by (elim conjE)
  then have "mealStep ex_trip [''Veggie House''] ''Lunch: Green Table - Tofu Banh Mi (Vegetarian)'' [] =
      [''Invalid restaurant in meals: '' @ quoted ''Green Table'']"
    by simp
  with d show ?thesis by (simp only: simp_thms)
qed

text \<open>
  C6. For every trip and itinerary the pace rule reports, in day order, one violation
  (stating the day, the actual block count and the pace) for exactly the days whose block
  count lies outside the range of the pace (relaxed [2,3], balanced [3,4], packed [4,6]),
  and these are exactly the pace messages among the validator's violations. A relaxed day
  with 2 blocks passes, with 1 or 4 blocks fails; a packed day with 6 blocks passes, with 7
  fails.
\<close>

theorem pace_rule:
  "checkPace trip itinerary vs =
     vs @ map (paceMessage trip)
            (filter (\<lambda>d. \<not> inPaceRange (pace trip) (length (blocks d))) (days itinerary)) \<and>
   filter isPaceMessage (violations (validateItineraryProduction trip itinerary A R B)) =
     map (paceMessage trip)
       (filter (\<lambda>d. \<not> inPaceRange (pace trip) (length (blocks d))) (days itinerary)) \<and>
   (pace trip = relaxed \<and> length (blocks d) = 2 \<longrightarrow> paceStep trip d vs = vs) \<and>
   (pace trip = relaxed \<and> length (blocks d) = 1 \<longrightarrow> paceStep trip d vs = vs @ [paceMessage trip d]) \<and>
   (pace trip = relaxed \<and> length (blocks d) = 4 \<longrightarrow> paceStep trip d vs = vs @ [paceMessage trip d]) \<and>
   (pace trip = packed \<and> length (blocks d) = 6 \<longrightarrow> paceStep trip d vs = vs) \<and>
   (pace trip = packed \<and> length (blocks d) = 7 \<longrightarrow> paceStep trip d vs = vs @ [paceMessage trip d])"
  by (simp add: checkPace_out validate_pace_messages paceStep_out inPaceRange_def)

theorem pace_rule_witness:
  "filter isPaceMessage
     (violations (validateItineraryProduction ex_trip ex_itinerary [''Millennium Park''] [''Veggie House''] [])) =
     [''Day 1 blocks=1 violates pace=relaxed''] \<and>
   paceStep ex_trip ex_day [] = [''Day 1 blocks=1 violates pace=relaxed'']"
proof -
  have m: "paceMessage ex_trip ex_day = ''Day 1 blocks=1 violates pace=relaxed''"
    by code_simp
  have p: "pace ex_trip = relaxed" "length (blocks ex_day) = 1" "days ex_itinerary = [ex_day]"
    by (simp_all add: ex_trip_def ex_day_def ex_itinerary_def)
  show ?thesis
    using pace_rule [of ex_trip ex_itinerary "[]" "[''Millennium Park'']" "[''Veggie House'']" "[]" ex_day]
    by (simp add: m p inPaceRange_def)
qed

text \<open>
  C7. One validator call returns the findings of all seven rules, one after the other, in a
  single list (no rule is skipped because an earlier one failed); among them there is
  exactly one invalid-attraction violation for every block whose title is not an allowed
  attraction, in block order; and \<open>ok\<close> holds if and only if the list is empty.
\<close>

theorem violations_accumulate:
  "violations (validateItineraryProduction trip itinerary A R B) =
     checkDayCount trip itinerary [] @ checkDayNumbers trip itinerary [] @
     checkPace trip itinerary [] @ checkNotes itinerary [] @ checkBlocks A itinerary [] @
     checkMeals trip R itinerary [] @ checkRainBackups B itinerary [] \<and>
   filter isAttractionMessage (violations (validateItineraryProduction trip itinerary A R B)) =
     map attractionMessage (filter (\<lambda>b. title b \<notin> set A) (allBlocks itinerary)) \<and>
   (ok (validateItineraryProduction trip itinerary A R B) \<longleftrightarrow>
      violations (validateItineraryProduction trip itinerary A R B) = [])"
  using validate_violations [of trip itinerary A R B] validate_attraction_messages [of trip itinerary A R B]
    validate_ok [of trip itinerary A R B]
  by (simp only: simp_thms)

theorem violations_accumulate_witness:
  "filter isAttractionMessage
     (violations (validateItineraryProduction ex_trip ex_itinerary [''Millennium Park''] [''Veggie House''] [])) =
     [''Invalid attraction in blocks: '' @ quoted ''Art Institute''] \<and>
   \<not> ok (validateItineraryProduction ex_trip ex_itinerary [''Millennium Park''] [''Veggie House''] [])"
proof -
  have b: "allBlocks ex_itinerary = [ex_block ''Art Institute'']"
    by (simp add: allBlocks_def ex_itinerary_def ex_day_def)
  have v: "violations (validateItineraryProduction ex_trip ex_itinerary [''Millennium Park''] [''Veggie House''] []) \<noteq> []"
    by (simp add: ex_validated)
  note t = violations_accumulate [of ex_trip ex_itinerary "[''Millennium Park'']" "[''Veggie House'']" "[]"]
  have f: "filter isAttractionMessage
      (violations (validateItineraryProduction ex_trip ex_itinerary [''Millennium Park''] [''Veggie House''] [])) =
      map attractionMessage (filter (\<lambda>b. title b \<notin> set [''Millennium Park'']) (allBlocks ex_itinerary))"
    using t by (elim conjE)
  have o: "ok (validateItineraryProduction ex_trip ex_itinerary [''Millennium Park''] [''Veggie House''] []) \<longleftrightarrow>
      violations (validateItineraryProduction ex_trip ex_itinerary [''Millennium Park''] [''Veggie House''] []) = []"
    using t by (elim conjE)
  show ?thesis
    unfolding f o using v by (simp add: b attractionMessage_def ex_block_def)
qed



section \<open>Properties of the balanced JSON extraction\<close>

lemma lex_state_Suc:
  "k < length s \<Longrightarrow> lex_state (take (Suc k) s) = lex_step (lex_state (take k s)) (s ! k)"
  by (simp add: lex_state_def take_Suc_conv_app_nth)

lemma brace_depth_Suc:
  "brace_depth s (Suc k) =
     brace_depth s k + (if outside s k \<and> s ! k = CHR ''{'' then 1 else 0)
       - (if outside s k \<and> s ! k = CHR ''}'' then 1 else 0)"
  by (simp add: brace_depth_def)

lemma brace_depth_0: "brace_depth s 0 = 0"
  by (simp add: brace_depth_def)

lemma find_upt_Suc:
  assumes "k < n"
  shows "find P [Suc k..<Suc n] = (if P (Suc k) then Some (Suc k) else find P [Suc (Suc k)..<Suc n])"
proof -
  have "[Suc k..<Suc n] = Suc k # [Suc (Suc k)..<Suc n]"
    by (rule upt_conv_Cons) (use assms in simp)
  then show ?thesis by (simp del: upt_Suc)
qed

lemma search_from_end: "search_from s (length s) = Inl (Error ''Unterminated JSON'')"
  by (simp add: search_from_def)

lemma search_from_step:
  "k < length s \<Longrightarrow>
   search_from s k = (if brace_depth s (Suc k) = 0 then Inr (take (Suc k) s) else search_from s (Suc k))"
  by (simp add: search_from_def find_upt_Suc del: upt_Suc)

lemma scan_spec:
  assumes s: "s = drop (nat start) raw" and st: "0 \<le> start" and sl: "nat start \<le> length raw"
    and hd: "s \<noteq> [] \<Longrightarrow> s ! 0 = CHR ''{''"
  shows "k \<le> length s \<Longrightarrow> lex_state (take k s) = code_lex inS esc \<Longrightarrow> inS \<or> \<not> esc \<Longrightarrow>
     depth = brace_depth s k \<Longrightarrow> k = 0 \<or> depth \<noteq> 0 \<Longrightarrow>
     scanJson raw (CHR ''{'') (CHR ''}'') start (start + int k) depth inS esc = search_from s k"
proof (induction "length s - k" arbitrary: k depth inS esc)
  case 0
  then have k: "k = length s" by simp
  have "\<not> start + int k < int (length raw)"
    using s st sl k by simp
  then show ?case
    by (subst scanJson.simps) (simp add: k search_from_end)
next
  case (Suc m)
  from Suc.hyps(2) have kl: "k < length s" and m: "m = length s - Suc k" by simp_all
  have i: "start + int k < int (length raw)" using kl s st sl by simp
  have ni: "nat (start + int k) = nat start + k" using st by simp
  have ch: "raw ! nat (start + int k) = s ! k"
    using kl s sl by (simp add: ni)
  have sl1: "slice raw start (start + int k + 1) = take (Suc k) s"
    using st s by (simp add: slice_def nat_add_distrib)
  have i1: "start + int k + 1 = start + int (Suc k)" by simp
  have lexS: "lex_state (take (Suc k) s) = lex_step (code_lex inS esc) (s ! k)"
    using kl Suc.prems(2) by (simp add: lex_state_Suc)
  have out: "outside s k \<longleftrightarrow> \<not> inS"
    using Suc.prems(2) by (simp add: outside_def code_lex_def)
  have k0: "k = 0 \<Longrightarrow> \<not> inS \<and> s ! k = CHR ''{''"
    using Suc.prems(2) hd kl by (auto simp: lex_state_def code_lex_def split: if_splits)
  have IH: "\<And>depth' inS' esc'. lex_state (take (Suc k) s) = code_lex inS' esc' \<Longrightarrow> inS' \<or> \<not> esc' \<Longrightarrow>
      depth' = brace_depth s (Suc k) \<Longrightarrow> depth' \<noteq> 0 \<Longrightarrow>
      scanJson raw (CHR ''{'') (CHR ''}'') start (start + int (Suc k)) depth' inS' esc' = search_from s (Suc k)"
    using Suc.hyps(1) [OF m] kl by simp
  show ?case
  proof (cases inS)
    case True
    with k0 have kn: "k \<noteq> 0" by blast
    with Suc.prems(5) have dn: "depth \<noteq> 0" by simp
    have same: "brace_depth s (Suc k) = depth"
      using True out Suc.prems(4) by (simp add: brace_depth_Suc)
    have sf: "search_from s k = search_from s (Suc k)"
      using kl same dn by (simp add: search_from_step)
    show ?thesis
    proof (cases esc)
      case esc: True
      have "scanJson raw (CHR ''{'') (CHR ''}'') start (start + int (Suc k)) depth True False = search_from s (Suc k)"
        using lexS True esc same dn by (intro IH) (simp_all add: code_lex_def)
      then show ?thesis
        using i True esc sf by (subst scanJson.simps) (simp add: i1 Let_def)
    next
      case nesc: False
      show ?thesis
      proof (cases "s ! k = CHR 0x5C")
        case bs: True
        have "scanJson raw (CHR ''{'') (CHR ''}'') start (start + int (Suc k)) depth True True = search_from s (Suc k)"
          using lexS True nesc bs same dn by (intro IH) (simp_all add: code_lex_def)
        then show ?thesis
          using i True nesc bs sf ch by (subst scanJson.simps) (simp add: i1 Let_def)
      next
        case nbs: False
        show ?thesis
        proof (cases "s ! k = CHR 0x22")
          case q: True
          have "scanJson raw (CHR ''{'') (CHR ''}'') start (start + int (Suc k)) depth False False = search_from s (Suc k)"
            using lexS True nesc q same dn by (intro IH) (simp_all add: code_lex_def)
          then show ?thesis
            using i True nesc nbs q sf ch by (subst scanJson.simps) (simp add: i1 Let_def)
        next
          case nq: False
          have "scanJson raw (CHR ''{'') (CHR ''}'') start (start + int (Suc k)) depth True False = search_from s (Suc k)"
            using lexS True nesc nbs nq same dn by (intro IH) (simp_all add: code_lex_def)
          then show ?thesis
            using i True nesc nbs nq sf ch by (subst scanJson.simps) (simp add: i1 Let_def)
        qed
      qed
    qed
  next
    case False
    with Suc.prems(3) have nesc: "\<not> esc" by simp
    show ?thesis
    proof (cases "s ! k = CHR 0x22")
      case q: True
      with k0 have kn: "k \<noteq> 0" by (cases "k = 0") auto
      with Suc.prems(5) have dn: "depth \<noteq> 0" by simp
      have same: "brace_depth s (Suc k) = depth"
        using q Suc.prems(4) by (simp add: brace_depth_Suc)
      have sf: "search_from s k = search_from s (Suc k)"
        using kl same dn by (simp add: search_from_step)
      have "scanJson raw (CHR ''{'') (CHR ''}'') start (start + int (Suc k)) depth True False = search_from s (Suc k)"
        using lexS False q same dn by (intro IH) (simp_all add: code_lex_def)
      then show ?thesis
        using i False nesc q sf ch by (subst scanJson.simps) (simp add: i1 Let_def)
    next
      case nq: False
      let ?d1 = "if s ! k = CHR ''{'' then depth + 1 else depth"
      let ?d2 = "if s ! k = CHR ''}'' then ?d1 - 1 else ?d1"
      have d2: "brace_depth s (Suc k) = ?d2"
        using False out Suc.prems(4) by (simp add: brace_depth_Suc)
      show ?thesis
      proof (cases "?d2 = 0")
        case z: True
        have "search_from s k = Inr (take (Suc k) s)"
          using kl d2 z by (simp add: search_from_step)
        then show ?thesis
          using i False nq z ch sl1 by (subst scanJson.simps) (simp add: Let_def)
      next
        case nz: False
        have sf: "search_from s k = search_from s (Suc k)"
          using kl d2 nz by (simp add: search_from_step)
        have "scanJson raw (CHR ''{'') (CHR ''}'') start (start + int (Suc k)) ?d2 False False = search_from s (Suc k)"
          using lexS False nq d2 nz by (intro IH) (simp_all add: code_lex_def)
        then show ?thesis
          using i False nesc nq nz sf ch by (subst scanJson.simps) (simp add: i1 Let_def)
      qed
    qed
  qed
qed


lemma brace_depth_step_ge: "brace_depth s (Suc k) \<ge> brace_depth s k - 1"
  by (simp add: brace_depth_Suc)

lemma brace_depth_positive:
  assumes one: "brace_depth s 1 = 1" and nz: "\<And>j. 0 < j \<Longrightarrow> j < k \<Longrightarrow> brace_depth s j \<noteq> 0"
  shows "0 < j \<Longrightarrow> j < k \<Longrightarrow> 0 < brace_depth s j"
proof (induction j)
  case 0
  then show ?case by simp
next
  case (Suc j)
  show ?case
  proof (cases "j = 0")
    case True
    with one show ?thesis by simp
  next
    case False
    with Suc have "0 < brace_depth s j" by simp
    moreover have "brace_depth s (Suc j) \<noteq> 0" using Suc.prems nz by blast
    ultimately show ?thesis using brace_depth_step_ge [of s j] by linarith
  qed
qed

lemma balanced_end_Some:
  assumes hd: "s \<noteq> []" "s ! 0 = CHR ''{''" and b: "balanced_end s = Some k"
  shows "2 \<le> k \<and> k \<le> length s \<and> s ! (k - 1) = CHR ''}'' \<and> outside s (k - 1) \<and>
         brace_depth s k = 0 \<and> (\<forall>j. 0 < j \<and> j < k \<longrightarrow> 0 < brace_depth s j)"
proof -
  from b obtain i where i: "i < length [1..<Suc (length s)]" "brace_depth s ([1..<Suc (length s)] ! i) = 0"
      "k = [1..<Suc (length s)] ! i" "\<forall>j<i. brace_depth s ([1..<Suc (length s)] ! j) \<noteq> 0"
    unfolding balanced_end_def find_Some_iff by blast
  have il: "i < length s" using i(1) by (simp del: upt_Suc)
  have k: "k = Suc i" using i(3) il by (simp del: upt_Suc)
  have z: "brace_depth s k = 0" using i(2,3) by simp
  have nz: "\<And>j. 0 < j \<Longrightarrow> j < k \<Longrightarrow> brace_depth s j \<noteq> 0"
  proof -
    fix j assume j: "0 < j" "j < k"
    then have "j - 1 < i" using k by simp
    with i(4) have "brace_depth s ([1..<Suc (length s)] ! (j - 1)) \<noteq> 0" by blast
    moreover have "[1..<Suc (length s)] ! (j - 1) = j" using j k il by (simp del: upt_Suc)
    ultimately show "brace_depth s j \<noteq> 0" by simp
  qed
  have o0: "outside s 0" by (simp add: outside_def lex_state_def)
  have one: "brace_depth s 1 = 1"
    using brace_depth_Suc [of s 0] o0 hd(2) by (simp add: brace_depth_0)
  have pos: "\<And>j. 0 < j \<Longrightarrow> j < k \<Longrightarrow> 0 < brace_depth s j"
    using one nz by (rule brace_depth_positive)
  have k2: "2 \<le> k" using z one k by (cases "i = 0") auto
  then have "0 < brace_depth s (k - 1)" using pos [of "k - 1"] by simp
  moreover have "brace_depth s k = brace_depth s (k - 1)
       + (if outside s (k - 1) \<and> s ! (k - 1) = CHR ''{'' then 1 else 0)
       - (if outside s (k - 1) \<and> s ! (k - 1) = CHR ''}'' then 1 else 0)"
    using brace_depth_Suc [of s "k - 1"] k2 by simp
  ultimately have "outside s (k - 1) \<and> s ! (k - 1) = CHR ''}''"
    using z by (auto split: if_splits)
  then show ?thesis using k2 k il z pos by auto
qed

lemma balanced_end_None:
  assumes "balanced_end s = None" and "0 < k" and "k \<le> length s"
  shows "brace_depth s k \<noteq> 0"
proof -
  have "k \<in> set [1..<Suc (length s)]" using assms(2,3) by (simp del: upt_Suc)
  with assms(1) show ?thesis unfolding balanced_end_def find_None_iff by blast
qed

lemma extract_object_eq:
  "extractFirstJsonSlice raw (CHR ''{'') (CHR ''}'') = first_json_object raw"
proof (cases "CHR ''{'' \<in> set raw")
  case False
  then show ?thesis
    by (simp add: extractFirstJsonSlice_def indexOf_def first_json_object_def)
next
  case True
  let ?start = "indexOf raw (CHR ''{'')"
  let ?s = "dropWhile (\<lambda>c. c \<noteq> CHR ''{'') raw"
  have st: "?start = int (length (takeWhile (\<lambda>c. c \<noteq> CHR ''{'') raw))"
    using True by (simp add: indexOf_def)
  have s: "?s = drop (nat ?start) raw"
    by (simp add: st dropWhile_eq_drop)
  have ne: "?s \<noteq> []" using True by (auto simp: dropWhile_eq_Nil_conv)
  then have "hd ?s = CHR ''{''" using hd_dropWhile [of "\<lambda>c. c \<noteq> CHR ''{''" raw] by simp
  then have hd: "?s ! 0 = CHR ''{''" using ne by (simp add: hd_conv_nth)
  have "scanJson raw (CHR ''{'') (CHR ''}'') ?start (?start + int 0) 0 False False = search_from ?s 0"
  proof (rule scan_spec [OF s])
    show "0 \<le> ?start" by (simp add: st)
    show "nat ?start \<le> length raw" by (simp add: st length_takeWhile_le)
    show "?s ! 0 = CHR ''{''" by (rule hd)
    show "lex_state (take 0 ?s) = code_lex False False" by (simp add: lex_state_def code_lex_def)
  qed (simp_all add: brace_depth_0)
  moreover have "?start \<noteq> - 1" by (simp add: st)
  moreover have "search_from ?s 0 =
      (case balanced_end ?s of None \<Rightarrow> Inl (Error ''Unterminated JSON'') | Some k \<Rightarrow> Inr (take k ?s))"
    by (simp add: search_from_def balanced_end_def del: upt_Suc)
  ultimately show ?thesis
    using True by (simp add: extractFirstJsonSlice_def first_json_object_def Let_def)
qed

lemma ex_raw_slice:
  "extractFirstJsonSlice ex_raw (CHR ''{'') (CHR ''}'') = Inr (''{'' @ quoted ''a}b'' @ '':{}}'')"
  by code_simp

lemma ex_no_json: "extractFirstJsonSlice ''no json here'' (CHR ''{'') (CHR ''}'') = Inl (Error ''No JSON found'')"
  by code_simp

lemma ex_unterminated:
  "extractFirstJsonSlice (''{'' @ quoted ''}'') (CHR ''{'') (CHR ''}'') = Inl (Error ''Unterminated JSON'')"
  by code_simp

text \<open>
  C3. For every input string, \<open>extractFirstJsonSlice\<close> with \<open>{\<close> and \<open>}\<close> throws
  \<open>No JSON found\<close> when the string has no \<open>{\<close>; otherwise it starts at the first \<open>{\<close> and
  returns the slice that ends at the brace balancing it, where only braces outside
  double-quoted string literals (backslash escapes respected) count: the end is the closing
  brace, outside every literal, at which the depth first returns to zero, the depth being
  positive before; it throws \<open>Unterminated JSON\<close> when the depth never returns to zero.
\<close>

theorem extractFirstJsonSlice_balanced:
  "extractFirstJsonSlice raw (CHR ''{'') (CHR ''}'') = first_json_object raw \<and>
   (CHR ''{'' \<in> set raw \<and> balanced_end (dropWhile (\<lambda>c. c \<noteq> CHR ''{'') raw) = Some k \<longrightarrow>
      (let s = dropWhile (\<lambda>c. c \<noteq> CHR ''{'') raw in
       s ! 0 = CHR ''{'' \<and> k \<le> length s \<and> s ! (k - 1) = CHR ''}'' \<and> outside s (k - 1) \<and>
       brace_depth s k = 0 \<and> (\<forall>j. 0 < j \<and> j < k \<longrightarrow> 0 < brace_depth s j))) \<and>
   (CHR ''{'' \<in> set raw \<and> balanced_end (dropWhile (\<lambda>c. c \<noteq> CHR ''{'') raw) = None \<longrightarrow>
      (\<forall>j. 0 < j \<and> j \<le> length (dropWhile (\<lambda>c. c \<noteq> CHR ''{'') raw) \<longrightarrow>
         brace_depth (dropWhile (\<lambda>c. c \<noteq> CHR ''{'') raw) j \<noteq> 0))"
proof -
  let ?s = "dropWhile (\<lambda>c. c \<noteq> CHR ''{'') raw"
  have hd: "CHR ''{'' \<in> set raw \<Longrightarrow> ?s \<noteq> [] \<and> ?s ! 0 = CHR ''{''"
  proof -
    assume "CHR ''{'' \<in> set raw"
    then have ne: "?s \<noteq> []" by (auto simp: dropWhile_eq_Nil_conv)
    then have "hd ?s = CHR ''{''" using hd_dropWhile [of "\<lambda>c. c \<noteq> CHR ''{''" raw] by simp
    with ne show ?thesis by (simp add: hd_conv_nth)
  qed
  show ?thesis
    using extract_object_eq [of raw] hd balanced_end_Some [of ?s k] balanced_end_None [of ?s]
    by (auto simp: Let_def)
qed

lemma ex_raw_end: "balanced_end (dropWhile (\<lambda>c. c \<noteq> CHR ''{'') ex_raw) = Some 10"
  by code_simp

theorem extractFirstJsonSlice_balanced_witness:
  "first_json_object ex_raw = Inr (''{'' @ quoted ''a}b'' @ '':{}}'') \<and>
   first_json_object ''no json here'' = Inl (Error ''No JSON found'') \<and>
   first_json_object (''{'' @ quoted ''}'') = Inl (Error ''Unterminated JSON'') \<and>
   dropWhile (\<lambda>c. c \<noteq> CHR ''{'') ex_raw ! 9 = CHR ''}'' \<and>
   outside (dropWhile (\<lambda>c. c \<noteq> CHR ''{'') ex_raw) 9 \<and>
   brace_depth (dropWhile (\<lambda>c. c \<noteq> CHR ''{'') ex_raw) 10 = 0"
proof -
  note t = extractFirstJsonSlice_balanced [of ex_raw 10]
  have a: "extractFirstJsonSlice ex_raw (CHR ''{'') (CHR ''}'') = first_json_object ex_raw"
    using t by (elim conjE)
  have m: "CHR ''{'' \<in> set ex_raw" by (simp add: ex_raw_def)
  have "CHR ''{'' \<in> set ex_raw \<and> balanced_end (dropWhile (\<lambda>c. c \<noteq> CHR ''{'') ex_raw) = Some 10 \<longrightarrow>
      (let s = dropWhile (\<lambda>c. c \<noteq> CHR ''{'') ex_raw in
       s ! 0 = CHR ''{'' \<and> 10 \<le> length s \<and> s ! (10 - 1) = CHR ''}'' \<and> outside s (10 - 1) \<and>
       brace_depth s 10 = 0 \<and> (\<forall>j. 0 < j \<and> j < 10 \<longrightarrow> 0 < brace_depth s j))"
    using t by (elim conjE)
  with m ex_raw_end have b: "dropWhile (\<lambda>c. c \<noteq> CHR ''{'') ex_raw ! 9 = CHR ''}'' \<and>
      outside (dropWhile (\<lambda>c. c \<noteq> CHR ''{'') ex_raw) 9 \<and>
      brace_depth (dropWhile (\<lambda>c. c \<noteq> CHR ''{'') ex_raw) 10 = 0"
    by (simp add: Let_def)
  have c: "first_json_object ''no json here'' = Inl (Error ''No JSON found'')"
    by code_simp
  have d: "first_json_object (''{'' @ quoted ''}'') = Inl (Error ''Unterminated JSON'')"
    by code_simp
  show ?thesis
    using a b c d ex_raw_slice by (simp only: simp_thms)
qed

section \<open>Properties of the generate-validate-repair loop\<close>

lemma revisions_append: "revisions (xs @ ys) = revisions xs @ revisions ys"
  by (simp add: revisions_def)

lemma revisions_simps:
  "revisions [] = []"
  "revisions (Revise a # xs) = a # revisions xs"
  "revisions (FixJson raw # xs) = revisions xs"
  "revisions (Generate trip al # xs) = revisions xs"
  by (simp_all add: revisions_def)

lemma chat_completion_sent:
  "chat_completion E req w = (res, w') \<Longrightarrow> sent w' = sent w @ [req]"
  by (auto simp: chat_completion_def split: prod.splits)

lemma reviseItineraryJson_sent:
  "reviseItineraryJson E args w = (res, w') \<Longrightarrow> sent w' = sent w @ [Revise args]"
  unfolding reviseItineraryJson_def by (rule chat_completion_sent)


lemma parseJsonObjectSafe_sent:
  "parseJsonObjectSafe E raw w = (res, w') \<Longrightarrow>
     sent w' = sent w \<or> sent w' = sent w @ [FixJson raw]"
  by (auto simp: parseJsonObjectSafe_def fixJsonOnly_def split: sum.splits prod.splits
      dest: chat_completion_sent)

lemma reviseLoop_unfold:
  "reviseLoop E trip al i itinerary validation w =
     (if i < 2 \<and> \<not> ok validation then
        (case revisePass E trip al itinerary validation w of
           (Inl e, w') \<Rightarrow> (Inl e, w')
         | (Inr revised, w') \<Rightarrow> reviseLoop E trip al (i + 1) revised (validate trip revised al) w')
      else (Inr (itinerary, validation), w))"
  by (subst reviseLoop.simps)
     (simp add: revisePass_def passArgs_def split: prod.splits sum.splits)






subsection \<open>Runs against concrete collaborators, and the claims on the loop\<close>

lemma ex_not_ok: "\<not> ok ex_validation"
  unfolding ex_validation_def validate_def ex_al_def by (simp add: ex_validated)

lemma stubborn_run:
  "reviseLoop stubborn_env ex_trip ex_al 0 ex_itinerary ex_validation ex_world =
     (Inr (ex_itinerary, ex_validation), \<lparr> collab = (), sent = [Revise ex_args, Revise ex_args] \<rparr>)"
  by code_simp


lemma stubborn_main:
  "main_revise stubborn_env ex_trip ex_al ex_itinerary ex_validation ex_world =
     (Inl ZodError,
      \<lparr> collab = (), sent = [Revise ex_args, Revise (ex_args\<lparr> r_fixes := fixSchema \<rparr>)] \<rparr>)"
  by code_simp

lemma helpful_main:
  "main_revise helpful_env ex_trip ex_al ex_itinerary ex_validation ex_world =
     (Inr (good_itinerary, \<lparr> ok = True, violations = [] \<rparr>),
      \<lparr> collab = (), sent = [Revise ex_args, Revise (ex_args\<lparr> r_fixes := fixSchema \<rparr>)] \<rparr>)"
  by code_simp

lemma empty_object_shape:
  "parseJsonObjectSafe stubborn_env ''{}'' w = (Inr (JObject []), w) \<and> \<not> looksLikeItinerary (JObject [])"
proof -
  have "extractFirstJsonSlice ''{}'' (CHR ''{'') (CHR ''}'') = Inr ''{}''" by code_simp
  then show ?thesis
    by (simp add: parseJsonObjectSafe_def extractFirstJsonObject_def stubborn_env_def ex_JSON_parse_def)
qed



lemma fix_lists_differ: "fixViolations \<noteq> fixSchema"
  by (simp add: fixViolations_def fixSchema_def)

text \<open>
  C8, as stated, fails on both paths. On the batch path two passes whose output \<open>{}\<close> fails
  the shape check send two repair requests in all, both with the ordinary instruction: no
  additional request follows a failed shape check. On the interactive path the additional
  request is sent, but when its output fails the shape too, \<open>ItinerarySchema.parse\<close> throws
  and the run ends with the error instead of keeping the itinerary.
\<close>

theorem shape_failure_counterexample:
  "parseJsonObjectSafe stubborn_env ''{}'' ex_world = (Inr (JObject []), ex_world) \<and>
   \<not> looksLikeItinerary (JObject []) \<and>
   revisions (sent (snd (reviseLoop stubborn_env ex_trip ex_al 0 ex_itinerary ex_validation ex_world))) =
     [ex_args, ex_args] \<and>
   r_fixes ex_args = fixViolations \<and> fixViolations \<noteq> fixSchema \<and>
   fst (main_revise stubborn_env ex_trip ex_al ex_itinerary ex_validation ex_world) = Inl ZodError"
  using empty_object_shape [of ex_world] fix_lists_differ
  by (simp add: stubborn_run stubborn_main revisions_simps ex_args_def passArgs_def)

lemma shape_failure_batch:
  assumes "i < 2" and "\<not> ok validation"
    and r: "reviseItineraryJson E (passArgs trip al itinerary validation) w = (Inr raw, w1)"
    and p: "parseJsonObjectSafe E raw w1 = (Inr obj, w2)"
    and s: "\<not> looksLikeItinerary obj"
  shows "reviseLoop E trip al i itinerary validation w =
           reviseLoop E trip al (i + 1) itinerary (validate trip itinerary al) w2"
    and "revisions (sent w2) = revisions (sent w) @ [passArgs trip al itinerary validation]"
proof -
  have "revisePass E trip al itinerary validation w = (Inr itinerary, w2)"
    using r p s by (simp add: revisePass_def)
  then show "reviseLoop E trip al i itinerary validation w =
           reviseLoop E trip al (i + 1) itinerary (validate trip itinerary al) w2"
    using assms(1,2) by (subst reviseLoop_unfold) simp
  show "revisions (sent w2) = revisions (sent w) @ [passArgs trip al itinerary validation]"
    using reviseItineraryJson_sent [OF r] parseJsonObjectSafe_sent [OF p]
    by (auto simp: revisions_append revisions_simps)
qed

lemma shape_failure_main:
  assumes "\<not> ok validation"
    and r: "reviseItineraryJson E (passArgs trip al itinerary validation) w = (Inr raw, w1)"
    and p: "parseJsonObjectSafe E raw w1 = (Inr obj, w2)"
    and s: "\<not> looksLikeItinerary obj"
  shows "\<exists>fx. sent (snd (main_revise E trip al itinerary validation w)) =
           sent w2 @ Revise ((passArgs trip al itinerary validation)\<lparr> r_fixes := fixSchema \<rparr>) # fx \<and>
           revisions fx = []"
proof -
  let ?fix = "(passArgs trip al itinerary validation)\<lparr> r_fixes := fixSchema \<rparr>"
  have fx: "?fix = \<lparr> r_trip = trip, r_itinerary = itinerary, r_fixes = fixSchema,
      r_allowed = al, r_violations = Some (violations validation) \<rparr>"
    by (simp add: passArgs_def)
  obtain r3 w3 where c: "reviseItineraryJson E ?fix w2 = (r3, w3)"
    by (cases "reviseItineraryJson E ?fix w2")
  then have s3: "sent w3 = sent w2 @ [Revise ?fix]" by (rule reviseItineraryJson_sent)
  have m: "main_revise E trip al itinerary validation w =
      (case reviseItineraryJson E ?fix w2 of
         (Inl e, w3) \<Rightarrow> (Inl e, w3)
       | (Inr rawFix, w3) \<Rightarrow>
           (case parseJsonObjectSafe E rawFix w3 of
              (Inl e, w4) \<Rightarrow> (Inl e, w4)
            | (Inr fixedObj, w4) \<Rightarrow>
                (case ItinerarySchema_parse fixedObj of
                   Inl e \<Rightarrow> (Inl e, w4)
                 | Inr revised \<Rightarrow> (Inr (revised, validate trip revised al), w4))))"
    using assms(1) r p s unfolding fx by (simp add: main_revise_def passArgs_def)
  show ?thesis
  proof (cases r3)
    case (Inl e)
    with m c have "snd (main_revise E trip al itinerary validation w) = w3" by simp
    with s3 show ?thesis by (simp add: revisions_simps)
  next
    case (Inr rawFix)
    obtain r4 w4 where d: "parseJsonObjectSafe E rawFix w3 = (r4, w4)"
      by (cases "parseJsonObjectSafe E rawFix w3")
    have "snd (main_revise E trip al itinerary validation w) = w4"
      using m c Inr d by (auto split: sum.splits)
    with s3 parseJsonObjectSafe_sent [OF d] show ?thesis
      by (auto simp: revisions_simps)
  qed
qed

lemma shape_failure_main_fixed:
  assumes "\<not> ok validation"
    and r: "reviseItineraryJson E (passArgs trip al itinerary validation) w = (Inr raw, w1)"
    and p: "parseJsonObjectSafe E raw w1 = (Inr obj, w2)"
    and s: "\<not> looksLikeItinerary obj"
    and r': "reviseItineraryJson E ((passArgs trip al itinerary validation)\<lparr> r_fixes := fixSchema \<rparr>) w2 = (Inr raw', w3)"
    and p': "parseJsonObjectSafe E raw' w3 = (Inr obj', w4)"
    and z: "ItinerarySchema_parse obj' = Inr revised"
  shows "main_revise E trip al itinerary validation w = (Inr (revised, validate trip revised al), w4)"
proof -
  have fx: "(passArgs trip al itinerary validation)\<lparr> r_fixes := fixSchema \<rparr> =
      \<lparr> r_trip = trip, r_itinerary = itinerary, r_fixes = fixSchema,
        r_allowed = al, r_violations = Some (violations validation) \<rparr>"
    by (simp add: passArgs_def)
  show ?thesis
    using assms(1) r p s r' p' z unfolding fx by (simp add: main_revise_def passArgs_def)
qed


text \<open>
  C8, amended. In an iteration of the batch loop whose parsed repair output fails the shape
  check, no additional repair request is sent (the iteration sends the one ordinary request)
  and the iteration ends with the itinerary from before the pass, unchanged and re-validated.
  On the interactive path, when the parsed repair output fails the shape check, exactly one
  additional repair request is sent, for the same itinerary and violations and with the
  explicit instruction to return a full, non-partial itinerary; when its output parses
  against the schema, that itinerary replaces the current one and is validated.
\<close>

theorem shape_failure_handling:
  "(i < 2 \<and> \<not> ok validation \<and>
    reviseItineraryJson E (passArgs trip al itinerary validation) w = (Inr raw, w1) \<and>
    parseJsonObjectSafe E raw w1 = (Inr obj, w2) \<and> \<not> looksLikeItinerary obj \<longrightarrow>
      reviseLoop E trip al i itinerary validation w =
        reviseLoop E trip al (i + 1) itinerary (validate trip itinerary al) w2 \<and>
      revisions (sent w2) = revisions (sent w) @ [passArgs trip al itinerary validation]) \<and>
   (\<not> ok validation \<and>
    reviseItineraryJson E (passArgs trip al itinerary validation) w = (Inr raw, w1) \<and>
    parseJsonObjectSafe E raw w1 = (Inr obj, w2) \<and> \<not> looksLikeItinerary obj \<longrightarrow>
      (\<exists>fx. sent (snd (main_revise E trip al itinerary validation w)) =
          sent w2 @ Revise ((passArgs trip al itinerary validation)\<lparr> r_fixes := fixSchema \<rparr>) # fx \<and>
          revisions fx = [])) \<and>
   (\<not> ok validation \<and>
    reviseItineraryJson E (passArgs trip al itinerary validation) w = (Inr raw, w1) \<and>
    parseJsonObjectSafe E raw w1 = (Inr obj, w2) \<and> \<not> looksLikeItinerary obj \<and>
    reviseItineraryJson E ((passArgs trip al itinerary validation)\<lparr> r_fixes := fixSchema \<rparr>) w2 =
      (Inr raw', w3) \<and>
    parseJsonObjectSafe E raw' w3 = (Inr obj', w4) \<and> ItinerarySchema_parse obj' = Inr revised \<longrightarrow>
      main_revise E trip al itinerary validation w = (Inr (revised, validate trip revised al), w4))"
  using shape_failure_batch [of i validation E trip al itinerary w raw w1 obj w2]
    shape_failure_main [of validation E trip al itinerary w raw w1 obj w2]
    shape_failure_main_fixed [of validation E trip al itinerary w raw w1 obj w2 raw' w3 obj' w4 revised]
  by blast

lemma good_text_parsed:
  "parseJsonObjectSafe helpful_env good_text w = (Inr good_json, w)"
proof -
  have "extractFirstJsonSlice good_text (CHR ''{'') (CHR ''}'') = Inr good_text" by code_simp
  moreover have "ex_JSON_parse good_text = Some good_json" by code_simp
  ultimately show ?thesis
    by (simp add: parseJsonObjectSafe_def extractFirstJsonObject_def helpful_env_def)
qed

lemma good_json_schema: "ItinerarySchema_parse good_json = Inr good_itinerary"
  by code_simp

lemma empty_object_helpful:
  "parseJsonObjectSafe helpful_env ''{}'' w = (Inr (JObject []), w)"
proof -
  have "extractFirstJsonSlice ''{}'' (CHR ''{'') (CHR ''}'') = Inr ''{}''" by code_simp
  then show ?thesis
    by (simp add: parseJsonObjectSafe_def extractFirstJsonObject_def helpful_env_def ex_JSON_parse_def)
qed

theorem shape_failure_handling_witness:
  "reviseLoop stubborn_env ex_trip ex_al 0 ex_itinerary ex_validation ex_world =
     reviseLoop stubborn_env ex_trip ex_al 1 ex_itinerary ex_validation
       \<lparr> collab = (), sent = [Revise ex_args] \<rparr> \<and>
   main_revise helpful_env ex_trip ex_al ex_itinerary ex_validation ex_world =
     (Inr (good_itinerary, validate ex_trip good_itinerary ex_al),
      \<lparr> collab = (), sent = [Revise ex_args, Revise (ex_args\<lparr> r_fixes := fixSchema \<rparr>)] \<rparr>)"
proof -
  let ?w1 = "\<lparr> collab = (), sent = [Revise ex_args] \<rparr> :: unit world"
  let ?w3 = "\<lparr> collab = (), sent = [Revise ex_args, Revise (ex_args\<lparr> r_fixes := fixSchema \<rparr>)] \<rparr> :: unit world"
  have a: "reviseItineraryJson stubborn_env (passArgs ex_trip ex_al ex_itinerary ex_validation) ex_world =
      (Inr ''{}'', ?w1)"
    by (simp add: reviseItineraryJson_def chat_completion_def stubborn_env_def ex_world_def ex_args_def)
  have b: "parseJsonObjectSafe stubborn_env ''{}'' ?w1 = (Inr (JObject []), ?w1)"
      "\<not> looksLikeItinerary (JObject [])"
    using empty_object_shape [of ?w1] by simp_all
  have a': "reviseItineraryJson helpful_env (passArgs ex_trip ex_al ex_itinerary ex_validation) ex_world =
      (Inr ''{}'', ?w1)"
    using fix_lists_differ
    by (simp add: reviseItineraryJson_def chat_completion_def helpful_env_def ex_world_def
        ex_args_def passArgs_def)
  have b': "parseJsonObjectSafe helpful_env ''{}'' ?w1 = (Inr (JObject []), ?w1)"
    by (rule empty_object_helpful)
  have c': "reviseItineraryJson helpful_env
      ((passArgs ex_trip ex_al ex_itinerary ex_validation)\<lparr> r_fixes := fixSchema \<rparr>) ?w1 = (Inr good_text, ?w3)"
    by (simp add: reviseItineraryJson_def chat_completion_def helpful_env_def ex_args_def passArgs_def)
  have d': "parseJsonObjectSafe helpful_env good_text ?w3 = (Inr good_json, ?w3)"
    by (rule good_text_parsed)
  note t1 = shape_failure_handling [of 0 ex_validation stubborn_env ex_trip ex_al ex_itinerary ex_world
      "''{}''" ?w1 "JObject []" ?w1]
  note t2 = shape_failure_handling [of 0 ex_validation helpful_env ex_trip ex_al ex_itinerary ex_world
      "''{}''" ?w1 "JObject []" ?w1 good_text ?w3 good_json ?w3 good_itinerary]
  have "reviseLoop stubborn_env ex_trip ex_al 0 ex_itinerary ex_validation ex_world =
      reviseLoop stubborn_env ex_trip ex_al (0 + 1) ex_itinerary (validate ex_trip ex_itinerary ex_al) ?w1"
    using t1 [THEN conjunct1] a b ex_not_ok by simp
  moreover have "main_revise helpful_env ex_trip ex_al ex_itinerary ex_validation ex_world =
      (Inr (good_itinerary, validate ex_trip good_itinerary ex_al), ?w3)"
    using t2 [THEN conjunct2, THEN conjunct2] a' b' b(2) c' d' good_json_schema ex_not_ok by simp
  ultimately show ?thesis by (simp add: ex_validation_def)
qed

text \<open>
  C10. On the batch path the trip length is \<open>max(1, floor((end - start) / 86400000) + 1)\<close>
  of the two parsed times: equal start and end dates give 1 day, an end before the start is
  clamped to 1 day and the request goes on (the schema accepts the trip), and a length
  above 30 makes \<open>TripRequestSchema.parse\<close> throw, which fails the request before any
  collaborator is called.
\<close>

theorem intake_trip_length:
  "(Date_getTime E (startDate input @ ''T00:00:00'') = Some s \<and>
    Date_getTime E (endDate input @ ''T00:00:00'') = Some e \<longrightarrow>
      intakeTripLengthDays E input = Some (max 1 ((e - s) div 86400000 + 1)) \<and>
      (e < s \<longrightarrow> intakeTripLengthDays E input = Some 1)) \<and>
   (startDate input = endDate input \<and> Date_getTime E (startDate input @ ''T00:00:00'') = Some s \<longrightarrow>
      intakeTripLengthDays E input = Some 1) \<and>
   (intakeTripLengthDays E input = Some 1 \<and> i_destination input \<noteq> [] \<and>
    1 \<le> i_travelers input \<and> i_travelers input \<le> 20 \<longrightarrow>
      (\<exists>trip. TripRequestSchema_parse (intakeTripObj E input) = Inr trip \<and> tripLengthDays trip = 1)) \<and>
   (intakeTripLengthDays E input = Some n \<and> 30 < n \<longrightarrow>
      TripRequestSchema_parse (intakeTripObj E input) = Inl ZodError \<and>
      planFromIntake E input w = (Inl ZodError, w))"
proof -
  have neg: "e < s \<Longrightarrow> (e - s) div 86400000 + 1 \<le> 0"
  proof -
    assume "e < s"
    then have "e - s < 0" by simp
    then have "(e - s) div 86400000 < 0" by (simp add: div_neg_pos_less0)
    then show ?thesis by simp
  qed
  have a: "Date_getTime E (startDate input @ ''T00:00:00'') = Some s \<and>
      Date_getTime E (endDate input @ ''T00:00:00'') = Some e \<longrightarrow>
      intakeTripLengthDays E input = Some (max 1 ((e - s) div 86400000 + 1)) \<and>
      (e < s \<longrightarrow> intakeTripLengthDays E input = Some 1)"
    using neg by (auto simp: intakeTripLengthDays_def Let_def max_def)
  have b: "startDate input = endDate input \<and> Date_getTime E (startDate input @ ''T00:00:00'') = Some s \<longrightarrow>
      intakeTripLengthDays E input = Some 1"
    by (auto simp: intakeTripLengthDays_def Let_def)
  have c: "intakeTripLengthDays E input = Some 1 \<and> i_destination input \<noteq> [] \<and>
      1 \<le> i_travelers input \<and> i_travelers input \<le> 20 \<longrightarrow>
      (\<exists>trip. TripRequestSchema_parse (intakeTripObj E input) = Inr trip \<and> tripLengthDays trip = 1)"
  proof (intro impI, elim conjE)
    assume h: "intakeTripLengthDays E input = Some 1" "i_destination input \<noteq> []"
      "1 \<le> i_travelers input" "i_travelers input \<le> 20"
    from h(2) have "length (i_destination input) \<ge> 1" by (cases "i_destination input") simp_all
    with h(1,3,4) show "\<exists>trip. TripRequestSchema_parse (intakeTripObj E input) = Inr trip \<and> tripLengthDays trip = 1"
      by (simp add: TripRequestSchema_parse_def intakeTripObj_def)
  qed
  have d: "intakeTripLengthDays E input = Some n \<and> 30 < n \<longrightarrow>
      TripRequestSchema_parse (intakeTripObj E input) = Inl ZodError \<and>
      planFromIntake E input w = (Inl ZodError, w)"
    by (simp add: TripRequestSchema_parse_def intakeTripObj_def planFromIntake_def)
  from a b c d show ?thesis by (simp only: simp_thms)
qed

theorem intake_trip_length_witness:
  "intakeTripLengthDays stubborn_env (ex_intake ''2025-03-01'' ''2025-03-03'') = Some 3 \<and>
   intakeTripLengthDays stubborn_env (ex_intake ''2025-03-03'' ''2025-03-01'') = Some 1 \<and>
   intakeTripLengthDays stubborn_env (ex_intake ''2025-03-01'' ''2025-03-01'') = Some 1 \<and>
   (\<exists>trip. TripRequestSchema_parse (intakeTripObj stubborn_env (ex_intake ''2025-03-03'' ''2025-03-01'')) = Inr trip \<and>
      tripLengthDays trip = 1) \<and>
   planFromIntake stubborn_env (ex_intake ''2025-03-01'' ''2025-04-15'') ex_world = (Inl ZodError, ex_world)"
proof -
  have t: "Date_getTime stubborn_env ''2025-03-01T00:00:00'' = Some 1740787200000"
      "Date_getTime stubborn_env ''2025-03-03T00:00:00'' = Some 1740960000000"
      "Date_getTime stubborn_env ''2025-04-15T00:00:00'' = Some 1744675200000"
    by (simp_all add: stubborn_env_def ex_getTime_def)
  have f: "startDate (ex_intake a b) = a" "endDate (ex_intake a b) = b"
      "i_destination (ex_intake a b) = ''Chicago''" "i_travelers (ex_intake a b) = 2" for a b
    by (simp_all add: ex_intake_def)
  have a: "intakeTripLengthDays stubborn_env (ex_intake ''2025-03-01'' ''2025-03-03'') = Some 3"
    using intake_trip_length [of stubborn_env "ex_intake ''2025-03-01'' ''2025-03-03''"
        1740787200000 1740960000000] t
    by (simp add: f)
  have b: "intakeTripLengthDays stubborn_env (ex_intake ''2025-03-03'' ''2025-03-01'') = Some 1"
    using intake_trip_length [of stubborn_env "ex_intake ''2025-03-03'' ''2025-03-01''"
        1740960000000 1740787200000] t
    by (simp add: f)
  have c: "intakeTripLengthDays stubborn_env (ex_intake ''2025-03-01'' ''2025-03-01'') = Some 1"
    using intake_trip_length [of stubborn_env "ex_intake ''2025-03-01'' ''2025-03-01''"
        1740787200000 1740787200000] t
    by (simp add: f)
  have d: "\<exists>trip. TripRequestSchema_parse (intakeTripObj stubborn_env (ex_intake ''2025-03-03'' ''2025-03-01'')) = Inr trip \<and>
      tripLengthDays trip = 1"
    using intake_trip_length [of stubborn_env "ex_intake ''2025-03-03'' ''2025-03-01''"] b
    by (simp add: f)
  have "intakeTripLengthDays stubborn_env (ex_intake ''2025-03-01'' ''2025-04-15'') = Some 46"
    using intake_trip_length [of stubborn_env "ex_intake ''2025-03-01'' ''2025-04-15''"
        1740787200000 1744675200000] t
    by (simp add: f)
  then have e: "planFromIntake stubborn_env (ex_intake ''2025-03-01'' ''2025-04-15'') ex_world = (Inl ZodError, ex_world)"
    using intake_trip_length [of stubborn_env "ex_intake ''2025-03-01'' ''2025-04-15''" _ _ 46 ex_world]
    by simp
  from a b c d e show ?thesis by (simp only: simp_thms)
qed

end
